theory Spec2Isabelle
  imports Complex_Main
begin

section \<open>Errors and results\<close>

text \<open>
  Every Python exception the model of \<^verbatim>\<open>models/var.py\<close> can raise is a value.
  \<open>RuntimeError\<close> stands for the shape errors of the tensor library.
\<close>

datatype error =
  AssertionError | IndexError | ZeroDivisionError | RuntimeError | AttributeError | TypeError

definition ebind :: "error + 'a \<Rightarrow> ('a \<Rightarrow> error + 'b) \<Rightarrow> error + 'b" where
  "ebind m f = (case m of Inl e \<Rightarrow> Inl e | Inr x \<Rightarrow> f x)"

section \<open>Tensor entries\<close>

text \<open>
  A floating-point entry is a finite value, an infinity or NaN. Finite values are
  reals: rounding and overflow are not modelled, the special values follow IEEE 754
  (\<open>inf * 0 = nan\<close>, \<open>inf - inf = nan\<close>, NaN propagates). Signed zeros are
  identified, as \<^verbatim>\<open>==\<close> does.
\<close>

datatype fl = Fin real | PosInf | NegInf | NaN

fun is_fin :: "fl \<Rightarrow> bool" where
  "is_fin (Fin _) = True"
| "is_fin _ = False"

fun fl_neg :: "fl \<Rightarrow> fl" where
  "fl_neg (Fin a) = Fin (- a)"
| "fl_neg PosInf = NegInf"
| "fl_neg NegInf = PosInf"
| "fl_neg NaN = NaN"

fun fl_add :: "fl \<Rightarrow> fl \<Rightarrow> fl" where
  "fl_add (Fin a) (Fin b) = Fin (a + b)"
| "fl_add NaN _ = NaN"
| "fl_add _ NaN = NaN"
| "fl_add PosInf NegInf = NaN"
| "fl_add NegInf PosInf = NaN"
| "fl_add PosInf _ = PosInf"
| "fl_add _ PosInf = PosInf"
| "fl_add NegInf _ = NegInf"
| "fl_add _ NegInf = NegInf"

definition fl_sub :: "fl \<Rightarrow> fl \<Rightarrow> fl" where
  "fl_sub a b = fl_add a (fl_neg b)"

definition fl_inf_of_sign :: "real \<Rightarrow> fl" where
  "fl_inf_of_sign s = (if s = 0 then NaN else if 0 < s then PosInf else NegInf)"

fun fl_mul :: "fl \<Rightarrow> fl \<Rightarrow> fl" where
  "fl_mul (Fin a) (Fin b) = Fin (a * b)"
| "fl_mul NaN _ = NaN"
| "fl_mul _ NaN = NaN"
| "fl_mul (Fin a) PosInf = fl_inf_of_sign a"
| "fl_mul (Fin a) NegInf = fl_inf_of_sign (- a)"
| "fl_mul PosInf (Fin b) = fl_inf_of_sign b"
| "fl_mul NegInf (Fin b) = fl_inf_of_sign (- b)"
| "fl_mul PosInf PosInf = PosInf"
| "fl_mul NegInf NegInf = PosInf"
| "fl_mul PosInf NegInf = NegInf"
| "fl_mul NegInf PosInf = NegInf"

section \<open>Tensors\<close>

text \<open>
  A tensor is its shape and its entries, read by a full index (one number per
  dimension). Only the entries at indices inside the shape mean anything.
  The operations below are the ones \<^verbatim>\<open>var.py\<close> calls, with the shape checks of
  the tensor library written out as \<open>RuntimeError\<close>.
\<close>

record 'a ten =
  shp :: "nat list"
  elt :: "nat list \<Rightarrow> 'a"

definition in_shape :: "nat list \<Rightarrow> nat list \<Rightarrow> bool" where
  "in_shape s idx = (length idx = length s \<and> list_all2 (<) idx s)"

definition of_list :: "'a list \<Rightarrow> 'a ten" where
  \<comment> \<open>a one-dimensional tensor holding the list\<close>
  "of_list xs = \<lparr>shp = [length xs], elt = (\<lambda>idx. xs ! hd idx)\<rparr>"

definition full :: "nat list \<Rightarrow> 'a \<Rightarrow> 'a ten" where
  "full s v = \<lparr>shp = s, elt = (\<lambda>idx. v)\<rparr>"

fun flat :: "nat list \<Rightarrow> nat list \<Rightarrow> nat" where
  \<comment> \<open>row-major offset of an index\<close>
  "flat (n # s) (i # idx) = i * prod_list s + flat s idx"
| "flat _ _ = 0"

fun unflat :: "nat list \<Rightarrow> nat \<Rightarrow> nat list" where
  "unflat [] k = []"
| "unflat (n # s) k = (k div prod_list s) # unflat s (k mod prod_list s)"

definition reshape :: "nat list \<Rightarrow> 'a ten \<Rightarrow> error + 'a ten" where
  \<comment> \<open>\<^verbatim>\<open>t.reshape(s)\<close> and \<^verbatim>\<open>t.view(s)\<close>: same entries in row-major order\<close>
  "reshape s t =
     (if prod_list s = prod_list (shp t)
      then Inr \<lparr>shp = s, elt = (\<lambda>idx. elt t (unflat (shp t) (flat s idx)))\<rparr>
      else Inl RuntimeError)"

definition swap12 :: "'b list \<Rightarrow> 'b list" where
  "swap12 xs = (case xs of a # b # c # r \<Rightarrow> a # c # b # r | _ \<Rightarrow> xs)"

definition transpose12 :: "'a ten \<Rightarrow> error + 'a ten" where
  \<comment> \<open>\<^verbatim>\<open>t.transpose(1, 2)\<close>\<close>
  "transpose12 t =
     (if length (shp t) < 3 then Inl IndexError
      else Inr \<lparr>shp = swap12 (shp t), elt = (\<lambda>idx. elt t (swap12 idx))\<rparr>)"

definition select1 :: "nat \<Rightarrow> 'a ten \<Rightarrow> error + 'a ten" where
  \<comment> \<open>\<^verbatim>\<open>t[:, k]\<close>: dimension 1 is indexed away\<close>
  "select1 k t =
     (case shp t of
        n0 # n1 # r \<Rightarrow>
          if k < n1 then Inr \<lparr>shp = n0 # r, elt = (\<lambda>idx. elt t (hd idx # k # tl idx))\<rparr>
          else Inl IndexError
      | _ \<Rightarrow> Inl IndexError)"

fun bshape :: "nat list \<Rightarrow> nat list \<Rightarrow> nat list option" where
  \<comment> \<open>broadcast of two shapes, both given last dimension first\<close>
  "bshape [] ys = Some ys"
| "bshape xs [] = Some xs"
| "bshape (x # xs) (y # ys) =
     (if x = y \<or> y = 1 then map_option ((#) x) (bshape xs ys)
      else if x = 1 then map_option ((#) y) (bshape xs ys)
      else None)"

definition bidx :: "nat list \<Rightarrow> nat list \<Rightarrow> nat list" where
  \<comment> \<open>the index an operand of shape \<open>s\<close> is read at for the result's index\<close>
  "bidx s idx = map2 (\<lambda>n i. if n = 1 then 0 else i) s (drop (length idx - length s) idx)"

definition tbin :: "('a \<Rightarrow> 'b \<Rightarrow> 'c) \<Rightarrow> 'a ten \<Rightarrow> 'b ten \<Rightarrow> error + 'c ten" where
  \<comment> \<open>an elementwise binary operation with broadcasting\<close>
  "tbin f a b =
     (case bshape (rev (shp a)) (rev (shp b)) of
        None \<Rightarrow> Inl RuntimeError
      | Some r \<Rightarrow>
          Inr \<lparr>shp = rev r,
               elt = (\<lambda>idx. f (elt a (bidx (shp a) idx)) (elt b (bidx (shp b) idx)))\<rparr>)"

definition tmap :: "('a \<Rightarrow> 'b) \<Rightarrow> 'a ten \<Rightarrow> 'b ten" where
  \<comment> \<open>an elementwise unary operation\<close>
  "tmap f t = \<lparr>shp = shp t, elt = (\<lambda>idx. f (elt t idx))\<rparr>"

definition smul :: "real \<Rightarrow> fl ten \<Rightarrow> fl ten" where
  \<comment> \<open>a Python float times a tensor\<close>
  "smul r t = tmap (fl_mul (Fin r)) t"

fun indices :: "nat list \<Rightarrow> nat list list" where
  \<comment> \<open>every index inside a shape\<close>
  "indices [] = [[]]"
| "indices (n # s) = concat (map (\<lambda>i. map ((#) i) (indices s)) [0..<n])"

definition slice :: "nat \<Rightarrow> nat \<Rightarrow> nat \<Rightarrow> 'a ten \<Rightarrow> error + 'a ten" where
  \<comment> \<open>\<^verbatim>\<open>t[..., lo:hi]\<close> along dimension \<open>d\<close>; Python clamps both bounds to the size\<close>
  "slice d lo hi t =
     (if d < length (shp t)
      then let n = shp t ! d; lo' = min lo n; hi' = min hi n
           in Inr \<lparr>shp = (shp t)[d := hi' - lo'],
                   elt = (\<lambda>idx. elt t (idx[d := idx ! d + lo']))\<rparr>
      else Inl IndexError)"

definition cat :: "nat \<Rightarrow> 'a ten \<Rightarrow> 'a ten \<Rightarrow> error + 'a ten" where
  \<comment> \<open>\<^verbatim>\<open>torch.cat((a, b), dim=d)\<close>: all other dimensions must agree\<close>
  "cat d a b =
     (if length (shp a) = length (shp b) \<and> d < length (shp a) \<and>
         (shp a)[d := 0] = (shp b)[d := 0]
      then Inr \<lparr>shp = (shp a)[d := shp a ! d + shp b ! d],
                elt = (\<lambda>idx. if idx ! d < shp a ! d then elt a idx
                             else elt b (idx[d := idx ! d - shp a ! d]))\<rparr>
      else Inl RuntimeError)"

definition unsqueeze :: "nat \<Rightarrow> 'a ten \<Rightarrow> error + 'a ten" where
  "unsqueeze d t =
     (if d \<le> length (shp t)
      then Inr \<lparr>shp = take d (shp t) @ 1 # drop d (shp t),
                elt = (\<lambda>idx. elt t (take d idx @ drop (Suc d) idx))\<rparr>
      else Inl IndexError)"

definition expand_ok :: "nat option \<Rightarrow> nat \<Rightarrow> bool" where
  "expand_ok want n = (case want of None \<Rightarrow> True | Some k \<Rightarrow> k = n \<or> n = 1)"

definition expand :: "nat option list \<Rightarrow> 'a ten \<Rightarrow> error + 'a ten" where
  \<comment> \<open>\<^verbatim>\<open>t.expand(sizes)\<close> with as many sizes as \<open>t\<close> has dimensions, as every call in
      \<^verbatim>\<open>var.py\<close>; \<open>None\<close> is the size \<^verbatim>\<open>-1\<close>\<close>
  "expand want t =
     (if length want = length (shp t) \<and> list_all2 expand_ok want (shp t)
      then Inr \<lparr>shp = map2 (\<lambda>w n. case w of None \<Rightarrow> n | Some k \<Rightarrow> k) want (shp t),
                elt = (\<lambda>idx. elt t (map2 (\<lambda>n i. if n = 1 then 0 else i) (shp t) idx))\<rparr>
      else Inl RuntimeError)"

definition iadd :: "fl ten \<Rightarrow> fl ten \<Rightarrow> error + fl ten" where
  \<comment> \<open>\<^verbatim>\<open>a += b\<close>: \<open>b\<close> is broadcast, the result must have the shape of \<open>a\<close>\<close>
  "iadd a b =
     (case bshape (rev (shp a)) (rev (shp b)) of
        None \<Rightarrow> Inl RuntimeError
      | Some r \<Rightarrow>
          if rev r = shp a
          then Inr \<lparr>shp = shp a, elt = (\<lambda>idx. fl_add (elt a idx) (elt b (bidx (shp b) idx)))\<rparr>
          else Inl RuntimeError)"

definition select_last :: "nat \<Rightarrow> 'a ten \<Rightarrow> error + 'a ten" where
  \<comment> \<open>\<^verbatim>\<open>t[:, :, k]\<close> on a tensor of three dimensions\<close>
  "select_last k t =
     (case shp t of
        [n0, n1, n2] \<Rightarrow>
          if k < n2 then Inr \<lparr>shp = [n0, n1], elt = (\<lambda>idx. elt t (idx @ [k]))\<rparr>
          else Inl IndexError
      | _ \<Rightarrow> Inl IndexError)"

definition view_rest :: "nat \<Rightarrow> nat \<Rightarrow> 'a ten \<Rightarrow> error + 'a ten" where
  \<comment> \<open>\<^verbatim>\<open>t.view(a, b, -1)\<close>\<close>
  "view_rest a b t =
     (if a * b \<noteq> 0 \<and> prod_list (shp t) mod (a * b) = 0
      then reshape [a, b, prod_list (shp t) div (a * b)] t
      else Inl RuntimeError)"

definition repeat2 :: "'a ten \<Rightarrow> error + 'a ten" where
  \<comment> \<open>\<^verbatim>\<open>t.repeat(2, 1, 1)\<close> on a tensor of three dimensions\<close>
  "repeat2 t =
     (case shp t of
        [n0, n1, n2] \<Rightarrow>
          Inr \<lparr>shp = [2 * n0, n1, n2], elt = (\<lambda>idx. elt t (idx[0 := idx ! 0 mod n0]))\<rparr>
      | _ \<Rightarrow> Inl RuntimeError)"

definition fl_dot :: "nat \<Rightarrow> (nat \<Rightarrow> fl) \<Rightarrow> (nat \<Rightarrow> fl) \<Rightarrow> fl" where
  \<comment> \<open>the sum of the first \<open>n\<close> products\<close>
  "fl_dot n f g = foldl (\<lambda>acc k. fl_add acc (fl_mul (f k) (g k))) (Fin 0) [0..<n]"

definition nn_linear :: "fl ten \<Rightarrow> fl ten \<Rightarrow> fl ten \<Rightarrow> error + fl ten" where
  \<comment> \<open>\<^verbatim>\<open>nn.Linear\<close> with weight \<open>(out, in)\<close> and bias \<open>(out)\<close>, on the last dimension\<close>
  "nn_linear w b x =
     (case shp w of
        [n_out, n_in] \<Rightarrow>
          if shp x \<noteq> [] \<and> last (shp x) = n_in
          then Inr \<lparr>shp = butlast (shp x) @ [n_out],
                    elt = (\<lambda>idx. fl_add
                             (fl_dot n_in (\<lambda>k. elt x (butlast idx @ [k])) (\<lambda>k. elt w [last idx, k]))
                             (elt b [last idx]))\<rparr>
          else Inl RuntimeError
      | _ \<Rightarrow> Inl RuntimeError)"

definition matmul :: "fl ten \<Rightarrow> fl ten \<Rightarrow> error + fl ten" where
  \<comment> \<open>\<^verbatim>\<open>a @ b\<close> for \<open>a\<close> of shape \<open>(B, l, V)\<close> and \<open>b\<close> of shape \<open>(1, V, c)\<close>\<close>
  "matmul a b =
     (case (shp a, shp b) of
        ([n0, n1, n2], [m0, m1, m2]) \<Rightarrow>
          if m0 = 1 \<and> m1 = n2
          then Inr \<lparr>shp = [n0, n1, m2],
                    elt = (\<lambda>idx. fl_dot n2 (\<lambda>k. elt a [idx ! 0, idx ! 1, k])
                                          (\<lambda>k. elt b [0, k, idx ! 2]))\<rparr>
          else Inl RuntimeError
      | _ \<Rightarrow> Inl RuntimeError)"

definition embedding :: "fl ten \<Rightarrow> int ten \<Rightarrow> error + fl ten" where
  \<comment> \<open>\<^verbatim>\<open>nn.Embedding\<close>: the row of the table for every index; an index outside the
      table raises\<close>
  "embedding w t =
     (case shp w of
        [n, c] \<Rightarrow>
          if list_all (\<lambda>idx. 0 \<le> elt t idx \<and> elt t idx < int n) (indices (shp t))
          then Inr \<lparr>shp = shp t @ [c],
                    elt = (\<lambda>idx. elt w [nat (elt t (butlast idx)), last idx])\<rparr>
          else Inl IndexError
      | _ \<Rightarrow> Inl RuntimeError)"

definition item :: "'a ten \<Rightarrow> nat list \<Rightarrow> error + 'a" where
  \<comment> \<open>\<^verbatim>\<open>t[i, j, ...]\<close> with one number per dimension\<close>
  "item t idx = (if in_shape (shp t) idx then Inr (elt t idx) else Inl IndexError)"

section \<open>The model object\<close>

text \<open>
  The arguments of \<^verbatim>\<open>VAR.__init__\<close> that the code of \<^verbatim>\<open>var.py\<close> itself reads.
  The other arguments (\<^verbatim>\<open>norm_eps\<close>, \<^verbatim>\<open>aln\<close>, \<^verbatim>\<open>mlp_ratio\<close>, the drop rates,
  \<^verbatim>\<open>tau\<close>, \<^verbatim>\<open>cos_attn\<close>, the fusion flags) are only handed on to the transformer
  blocks of \<^verbatim>\<open>models.basic\<close>. Sizes are natural numbers.
\<close>

record config =
  vae_Cvae :: nat  \<comment> \<open>\<^verbatim>\<open>vae_local.Cvae\<close>\<close>
  vae_vocab_size :: nat  \<comment> \<open>\<^verbatim>\<open>vae_local.vocab_size\<close>\<close>
  num_classes :: nat
  cond_drop_rate :: real
  depth :: nat
  embed_dim :: nat
  num_heads :: nat
  layer_scale :: real
  patch_nums :: "nat list"
  last_block_fused :: bool  \<comment> \<open>\<^verbatim>\<open>self.blocks[-1].fused_add_norm_fn is not None\<close>\<close>

text \<open>
  The values the constructor draws or receives: the fresh state of
  \<^verbatim>\<open>torch.Generator\<close>, the state of the process-wide default generator, and the
  initial entries of the learned parameters (\<^verbatim>\<open>trunc_normal_\<close> and the default
  initialisation of \<^verbatim>\<open>nn.Linear\<close>). The constructor fixes the shapes.
\<close>

record 'g init_vals =
  rng0 :: 'g
  default_rng0 :: 'g
  class_emb0 :: "nat list \<Rightarrow> fl"
  pos_start0 :: "nat list \<Rightarrow> fl"
  pos_1LC0 :: "nat list \<Rightarrow> fl"
  lvl_embed0 :: "nat list \<Rightarrow> fl"
  word_embed_weight0 :: "nat list \<Rightarrow> fl"
  word_embed_bias0 :: "nat list \<Rightarrow> fl"

text \<open>
  Modelled from the spec: the key/value cache of a block's attention
  (\<^verbatim>\<open>models.basic\<close> is not among the sources). The spec gives it an explicit
  lifecycle: enabled before the stage loop, populated stage by stage, disabled and
  cleared after the loop, empty and disabled outside a generation call.
\<close>

record 'kv blk =
  caching :: bool
  cached :: "'kv option"

definition kv_caching :: "bool \<Rightarrow> 'kv blk \<Rightarrow> 'kv blk" where
  "kv_caching enable b =
     (if enable then b\<lparr>caching := True\<rparr> else b\<lparr>caching := False, cached := None\<rparr>)"

datatype gamma2 = GammaNone | GammaOne | GammaVec "fl ten"

record ('g, 'kv) var = config +
  Cvae :: nat
  V :: nat
  C :: nat
  D :: nat
  prog_si :: int
  L :: nat
  first_l :: nat
  begin_ends :: "(nat \<times> nat) list"
  num_stages_minus_1 :: int
  rng :: 'g
  default_rng :: 'g  \<comment> \<open>the process-wide generator, used where \<^verbatim>\<open>rng\<close> is \<^verbatim>\<open>None\<close>\<close>
  word_embed_weight :: "fl ten"
  word_embed_bias :: "fl ten"
  selecting_idx :: "fl ten"
  class_emb :: "fl ten"
  pos_start :: "fl ten"
  pos_1LC :: "fl ten"
  lvl_embed :: "fl ten"
  blocks :: "'kv blk list"
  gamma2_last :: gamma2
  lvl_1L :: "nat ten"
  attn_bias_for_masking :: "fl ten"

section \<open>The constructor\<close>

fun begin_ends_loop :: "nat \<Rightarrow> nat list \<Rightarrow> (nat \<times> nat) list" where
  \<comment> \<open>lines 47 to 50: \<^verbatim>\<open>cur\<close> runs through the stage boundaries\<close>
  "begin_ends_loop cur [] = []"
| "begin_ends_loop cur (pn # pns) = (cur, cur + pn ^ 2) # begin_ends_loop (cur + pn ^ 2) pns"

definition lvl_list :: "nat list \<Rightarrow> nat list" where
  \<comment> \<open>line 121: \<^verbatim>\<open>torch.cat([torch.full((pn*pn,), i) for i, pn in enumerate(patch_nums)])\<close>\<close>
  "lvl_list pns = concat (map (\<lambda>(i, pn). replicate (pn * pn) i) (enumerate 0 pns))"

definition mask_buffers :: "nat list \<Rightarrow> nat \<Rightarrow> error + (nat ten \<times> fl ten)" where
  \<comment> \<open>lines 121 to 126: the level index \<^verbatim>\<open>lvl_1L\<close> and the attention bias\<close>
  "mask_buffers pns Lv =
     ebind (reshape [1, Lv, 1] (of_list (lvl_list pns))) (\<lambda>d.
     ebind (transpose12 d) (\<lambda>dT.
     ebind (select1 0 dT) (\<lambda>lvl.
     ebind (tbin (\<lambda>a b. if a \<ge> b then Fin 0 else NegInf) d dT) (\<lambda>m.
     ebind (reshape [1, 1, Lv, Lv] m) (\<lambda>bias.
     Inr (lvl, bias))))))"

definition VAR_init :: "config \<Rightarrow> 'g init_vals \<Rightarrow> error + ('g, 'kv) var" where
  "VAR_init c w =
     (if num_heads c = 0 then Inl ZeroDivisionError
      else if embed_dim c mod num_heads c \<noteq> 0 then Inl AssertionError
      else
        let pns = patch_nums c;
            Lv = sum_list (map (\<lambda>pn. pn ^ 2) pns)
        in case pns of
          [] \<Rightarrow> Inl IndexError
        | pn0 # _ \<Rightarrow>
            if embed_dim c = 0 then Inl ZeroDivisionError
            else if num_classes c = 0 then Inl ZeroDivisionError
            else if [1, sum_list (map (\<lambda>pn. pn * pn) pns), embed_dim c] \<noteq> [1, Lv, embed_dim c]
              then Inl AssertionError
            else if depth c = 0 then Inl IndexError
            else
              ebind (mask_buffers pns Lv) (\<lambda>(lvl, bias).
              Inr \<lparr>vae_Cvae = vae_Cvae c, vae_vocab_size = vae_vocab_size c,
                   num_classes = num_classes c, cond_drop_rate = cond_drop_rate c,
                   depth = depth c, embed_dim = embed_dim c, num_heads = num_heads c,
                   layer_scale = layer_scale c, patch_nums = pns,
                   last_block_fused = last_block_fused c,
                   Cvae = vae_Cvae c, V = vae_vocab_size c,
                   C = embed_dim c, D = embed_dim c,
                   prog_si = - 1,
                   L = Lv, first_l = pn0 ^ 2,
                   begin_ends = begin_ends_loop 0 pns,
                   num_stages_minus_1 = int (length pns) - 1,
                   rng = rng0 w, default_rng = default_rng0 w,
                   word_embed_weight = \<lparr>shp = [embed_dim c, vae_Cvae c], elt = word_embed_weight0 w\<rparr>,
                   word_embed_bias = \<lparr>shp = [embed_dim c], elt = word_embed_bias0 w\<rparr>,
                   selecting_idx = full [1, num_classes c] (Fin (1 / real (num_classes c))),
                   class_emb = \<lparr>shp = [num_classes c + 1, embed_dim c], elt = class_emb0 w\<rparr>,
                   pos_start = \<lparr>shp = [1, pn0 ^ 2, embed_dim c], elt = pos_start0 w\<rparr>,
                   pos_1LC = \<lparr>shp = [1, sum_list (map (\<lambda>pn. pn * pn) pns), embed_dim c],
                              elt = pos_1LC0 w\<rparr>,
                   lvl_embed = \<lparr>shp = [length pns, embed_dim c], elt = lvl_embed0 w\<rparr>,
                   blocks = replicate (depth c) \<lparr>caching = False, cached = None\<rparr>,
                   gamma2_last =
                     (if last_block_fused c
                      then if layer_scale c \<ge> 0
                           then GammaVec (full [embed_dim c] (Fin (layer_scale c)))
                           else GammaOne
                      else GammaNone),
                   lvl_1L = lvl, attn_bias_for_masking = bias\<rparr>))"

text \<open>
  Two states of one model object agree on everything but the generator states and
  the blocks' caches: the hyperparameters, the bookkeeping, the buffers and the
  parameter values are the same.
\<close>

definition same_static :: "('g, 'kv) var \<Rightarrow> ('g, 'kv) var \<Rightarrow> bool" where
  "same_static m m' =
     (m'\<lparr>rng := rng m, default_rng := default_rng m, blocks := blocks m\<rparr> = m)"

definition idle :: "('g, 'kv) var \<Rightarrow> bool" where
  \<comment> \<open>no block holds cached keys or values, and caching is off\<close>
  "idle m = list_all (\<lambda>b. \<not> caching b \<and> cached b = None) (blocks m)"

section \<open>The collaborators\<close>

text \<open>
  The components \<^verbatim>\<open>var.py\<close> calls but does not define: the random number
  generators of the tensor library, the transformer blocks (\<^verbatim>\<open>models.basic\<close>), the
  head (\<^verbatim>\<open>models.head\<close>), the samplers (\<^verbatim>\<open>models.helpers\<close>) and the codebook
  (\<^verbatim>\<open>models.vae\<close>). They are parameters of the model: each is a function of its
  explicit inputs, a random draw takes the generator state and returns the new one,
  and a block takes and returns the cached keys and values of its attention.
  A block returns a hidden state or, when it fuses its residual addition, the pair
  of hidden state and residual.
\<close>

datatype hid = Plain "fl ten" | Fused "fl ten" "fl ten"

record ('g, 'kv) ext =
  manual_seed :: "int \<Rightarrow> 'g"
  multinomial :: "'g \<Rightarrow> fl ten \<Rightarrow> nat \<Rightarrow> (nat \<Rightarrow> int) \<times> 'g"
  rand :: "'g \<Rightarrow> nat \<Rightarrow> (nat \<Rightarrow> real) \<times> 'g"
  shared_ada_lin :: "fl ten \<Rightarrow> error + fl ten"
  blk_fwd :: "nat \<Rightarrow> bool \<Rightarrow> 'kv option \<Rightarrow> hid \<Rightarrow> fl ten \<Rightarrow> fl ten option
                \<Rightarrow> error + hid \<times> 'kv option"
  drop_path_last :: "fl ten \<Rightarrow> fl ten"
  head_nm :: "fl ten \<Rightarrow> fl ten \<Rightarrow> error + fl ten"
  head :: "fl ten \<Rightarrow> error + fl ten"
  sample_with_top_k_top_p :: "'g \<Rightarrow> fl ten \<Rightarrow> int \<Rightarrow> real \<Rightarrow> nat
                \<Rightarrow> error + (int ten \<times> fl ten) \<times> 'g"
  gumbel_softmax_with_rng :: "'g \<Rightarrow> fl ten \<Rightarrow> real \<Rightarrow> error + fl ten \<times> 'g"
  vq_embedding :: "int ten \<Rightarrow> error + fl ten"
  vq_embedding_weight :: "fl ten"
  get_next_autoregressive_input :: "nat \<Rightarrow> nat \<Rightarrow> fl ten \<Rightarrow> fl ten
                \<Rightarrow> error + fl ten \<times> fl ten"

text \<open>
  \<^verbatim>\<open>sample_with_top_k_top_p_\<close> works in place: it returns the indices together with
  the logits as it leaves them.
\<close>

fun run_blocks :: "('g, 'kv) ext \<Rightarrow> nat \<Rightarrow> 'kv blk list \<Rightarrow> hid \<Rightarrow> fl ten \<Rightarrow> fl ten option
    \<Rightarrow> error + hid \<times> 'kv blk list" where
  \<comment> \<open>\<^verbatim>\<open>for b in self.blocks: x = b(x=x, cond_BD=..., attn_bias=...)\<close>\<close>
  "run_blocks E i [] x c a = Inr (x, [])"
| "run_blocks E i (b # bs) x c a =
     ebind (blk_fwd E i (caching b) (cached b) x c a) (\<lambda>(y, kv).
     ebind (run_blocks E (Suc i) bs y c a) (\<lambda>(z, bs').
     Inr (z, b\<lparr>cached := kv\<rparr> # bs')))"

section \<open>The head\<close>

definition get_logits :: "('g, 'kv) ext \<Rightarrow> ('g, 'kv) var \<Rightarrow> hid \<Rightarrow> fl ten \<Rightarrow> real
    \<Rightarrow> error + fl ten" where
  \<comment> \<open>lines 136 to 142\<close>
  "get_logits E m h_or_h_and_residual cond_BD tau =
     ebind (case h_or_h_and_residual of
              Fused h resi \<Rightarrow>
                (case gamma2_last m of
                   GammaNone \<Rightarrow> Inl TypeError
                 | GammaOne \<Rightarrow> tbin fl_add resi (drop_path_last E h)
                 | GammaVec g \<Rightarrow>
                     ebind (tbin fl_mul g (drop_path_last E h)) (\<lambda>gh. tbin fl_add resi gh))
            | Plain h \<Rightarrow> Inr h) (\<lambda>h.
     ebind (head_nm E h cond_BD) (\<lambda>hn.
     ebind (head E hn) (\<lambda>lg.
     if tau = 0 then Inl ZeroDivisionError else Inr (smul (1 / tau) lg))))"

section \<open>The teacher-forcing forward\<close>

definition drop_labels :: "(nat \<Rightarrow> real) \<Rightarrow> nat \<Rightarrow> real \<Rightarrow> nat \<Rightarrow> int ten \<Rightarrow> error + int ten" where
  \<comment> \<open>line 224:
      \<^verbatim>\<open>torch.where(torch.rand(B) < self.cond_drop_rate, self.num_classes, label_B)\<close>,
      \<open>u\<close> being the \<open>B\<close> draws of \<^verbatim>\<open>torch.rand(B)\<close>\<close>
  "drop_labels u B rate nc label_B =
     tbin (\<lambda>below l. if below then int nc else l)
       (tmap (\<lambda>v. v < rate) \<lparr>shp = [B], elt = (\<lambda>idx. u (hd idx))\<rparr>) label_B"

definition forward_body :: "('g, 'kv) ext \<Rightarrow> ('g, 'kv) var \<Rightarrow> int ten \<Rightarrow> fl ten
    \<Rightarrow> error + fl ten \<times> ('g, 'kv) var" where
  \<comment> \<open>lines 221 to 246; the changes of \<^verbatim>\<open>dtype\<close> (lines 236 to 241) change no value here\<close>
  "forward_body E m label_B x_BLCv_wo_first_l =
     ebind (if prog_si m \<ge> 0
            then if nat (prog_si m) < length (begin_ends m)
                 then Inr (begin_ends m ! nat (prog_si m)) else Inl IndexError
            else Inr (0, L m)) (\<lambda>(bg, ed).
     case shp x_BLCv_wo_first_l of
       [] \<Rightarrow> Inl IndexError
     | B # _ \<Rightarrow>
         (case rand E (default_rng m) B of (u, g) \<Rightarrow>
          ebind (drop_labels u B (cond_drop_rate m) (num_classes m) label_B) (\<lambda>label_B.
          ebind (embedding (class_emb m) label_B) (\<lambda>cond_BD.
          ebind (unsqueeze 1 cond_BD) (\<lambda>sos1.
          ebind (expand [Some B, Some (first_l m), None] sos1) (\<lambda>sos2.
          ebind (expand [Some B, Some (first_l m), None] (pos_start m)) (\<lambda>ps.
          ebind (tbin fl_add sos2 ps) (\<lambda>sos.
          ebind (if prog_si m = 0 then Inr sos
                 else ebind (nn_linear (word_embed_weight m) (word_embed_bias m) x_BLCv_wo_first_l)
                        (\<lambda>we. cat 1 sos we)) (\<lambda>x_BLC.
          ebind (slice 1 0 ed (lvl_1L m)) (\<lambda>lv.
          ebind (expand [Some B, None] (tmap int lv)) (\<lambda>lvB.
          ebind (embedding (lvl_embed m) lvB) (\<lambda>le.
          ebind (slice 1 0 ed (pos_1LC m)) (\<lambda>pe.
          ebind (tbin fl_add le pe) (\<lambda>lvl_pos.
          ebind (iadd x_BLC lvl_pos) (\<lambda>x_BLC.
          ebind (slice 2 0 ed (attn_bias_for_masking m)) (\<lambda>ab.
          ebind (slice 3 0 ed ab) (\<lambda>attn_bias.
          ebind (shared_ada_lin E cond_BD) (\<lambda>cond_BD_or_gss.
          ebind (run_blocks E 0 (blocks m) (Plain x_BLC) cond_BD_or_gss (Some attn_bias)) (\<lambda>(h, bs).
          ebind (case h of Plain t \<Rightarrow> get_logits E m (Plain t) cond_BD 1
                         | Fused t r \<Rightarrow> Inl AttributeError) (\<lambda>logits.
          Inr (logits, m\<lparr>default_rng := g, blocks := bs\<rparr>)))))))))))))))))))))"

definition keep_alive :: "('g, 'kv) var \<Rightarrow> fl ten \<Rightarrow> error + fl ten" where
  \<comment> \<open>lines 248 to 256. \<^verbatim>\<open>self.word_embed\<close> is the \<^verbatim>\<open>nn.Linear\<close> of line 58, so the
      branch of line 250 is the one taken; the logits have three dimensions\<close>
  "keep_alive m x_BLC =
     (if prog_si m = 0
      then ebind (item x_BLC [0, 0, 0]) (\<lambda>x000.
           ebind (item (word_embed_weight m) [0, 0]) (\<lambda>w00.
           ebind (item (word_embed_bias m) [0]) (\<lambda>b0.
           Inr (x_BLC\<lparr>elt := (elt x_BLC)
                  ([0, 0, 0] := fl_add x000 (fl_add (fl_mul w00 (Fin 0)) (fl_mul b0 (Fin 0))))\<rparr>))))
      else Inr x_BLC)"

definition forward :: "('g, 'kv) ext \<Rightarrow> ('g, 'kv) var \<Rightarrow> int ten \<Rightarrow> fl ten
    \<Rightarrow> error + fl ten \<times> ('g, 'kv) var" where
  \<comment> \<open>lines 215 to 257\<close>
  "forward E m label_B x_BLCv_wo_first_l =
     ebind (forward_body E m label_B x_BLCv_wo_first_l) (\<lambda>(x_BLC, m').
     ebind (keep_alive m x_BLC) (\<lambda>logits. Inr (logits, m')))"

section \<open>Generation\<close>

datatype label_arg = LabelNone | LabelInt int | LabelTensor "int ten"

datatype out = Idx "int ten" | Vemb "fl ten"

text \<open>
  What one pass of the stage loop computed in its local variables, kept so that
  statements can speak of them: \<^verbatim>\<open>ratio\<close>, \<^verbatim>\<open>t\<close>, the logits \<^verbatim>\<open>get_logits\<close>
  returned for the doubled batch, the logits handed to the sampler, and the caching
  flag each block had when the blocks ran. The list of these records is no state of
  the program.
\<close>

record stage_obs =
  ob_ratio :: real
  ob_t :: real
  ob_logits_2B :: "fl ten"
  ob_logits :: "fl ten"
  ob_caching :: "bool list"

text \<open>
  The arguments and locals of \<^verbatim>\<open>autoregressive_infer_cfg\<close> that stay fixed during the
  stage loop. \<open>fr_rng\<close> says whether the local \<^verbatim>\<open>rng\<close> is \<^verbatim>\<open>self.rng\<close> (a seed was
  given) or \<^verbatim>\<open>None\<close>.
\<close>

record frame =
  fr_B :: nat
  fr_cfg :: real
  fr_top_k :: int
  fr_top_p :: real
  fr_returns_vemb :: bool
  fr_gumbel :: real
  fr_tau :: real
  fr_rng :: bool
  fr_cond_BD :: "fl ten"
  fr_lvl_pos :: "fl ten"

record ('g, 'kv) loop_state =
  self :: "('g, 'kv) var"
  cur_L :: nat
  cur_token_map :: "fl ten"
  f_hat :: "fl ten"
  ret :: "out list"
  observed :: "stage_obs list"

definition with_rng :: "bool \<Rightarrow> ('g \<Rightarrow> 'a \<times> 'g) \<Rightarrow> ('g, 'kv) var \<Rightarrow> 'a \<times> ('g, 'kv) var" where
  \<comment> \<open>a draw with \<^verbatim>\<open>generator=rng\<close>: from \<^verbatim>\<open>self.rng\<close>, or from the default generator
      when \<^verbatim>\<open>rng\<close> is \<^verbatim>\<open>None\<close>\<close>
  "with_rng given f m =
     (if given then (case f (rng m) of (r, g) \<Rightarrow> (r, m\<lparr>rng := g\<rparr>))
      else (case f (default_rng m) of (r, g) \<Rightarrow> (r, m\<lparr>default_rng := g\<rparr>)))"

definition with_rng_e :: "bool \<Rightarrow> ('g \<Rightarrow> error + 'a \<times> 'g) \<Rightarrow> ('g, 'kv) var
    \<Rightarrow> error + 'a \<times> ('g, 'kv) var" where
  "with_rng_e given f m =
     (if given then ebind (f (rng m)) (\<lambda>(r, g). Inr (r, m\<lparr>rng := g\<rparr>))
      else ebind (f (default_rng m)) (\<lambda>(r, g). Inr (r, m\<lparr>default_rng := g\<rparr>)))"

definition cfg_merge :: "real \<Rightarrow> nat \<Rightarrow> fl ten \<Rightarrow> error + fl ten" where
  \<comment> \<open>line 193: \<^verbatim>\<open>(1+t) * logits_BlV[:B] - t * logits_BlV[B:]\<close>\<close>
  "cfg_merge t B logits_BlV =
     ebind (slice 0 0 B logits_BlV) (\<lambda>cond_half.
     ebind (slice 0 B (hd (shp logits_BlV)) logits_BlV) (\<lambda>uncond_half.
     tbin fl_sub (smul (1 + t) cond_half) (smul t uncond_half)))"

definition stage :: "('g, 'kv) ext \<Rightarrow> frame \<Rightarrow> nat \<Rightarrow> nat \<Rightarrow> ('g, 'kv) loop_state
    \<Rightarrow> error + ('g, 'kv) loop_state" where
  \<comment> \<open>lines 181 to 210: one pass of the loop over \<^verbatim>\<open>enumerate(self.patch_nums)\<close>\<close>
  "stage E fr si pn s =
     (let m = self s in
      if num_stages_minus_1 m = 0 then Inl ZeroDivisionError
      else
        let ratio = real si / real_of_int (num_stages_minus_1 m);
            cur = cur_L s + pn * pn
        in
        ebind (shared_ada_lin E (fr_cond_BD fr)) (\<lambda>cond_BD_or_gss.
        ebind (run_blocks E 0 (blocks m) (Plain (cur_token_map s)) cond_BD_or_gss None) (\<lambda>(x, bs).
        ebind (get_logits E m x (fr_cond_BD fr) (fr_tau fr)) (\<lambda>logits_2B.
        let t = fr_cfg fr * ratio in
        ebind (cfg_merge t (fr_B fr) logits_2B) (\<lambda>logits_BlV.
        ebind (with_rng_e (fr_rng fr)
                 (\<lambda>g. sample_with_top_k_top_p E g logits_BlV (fr_top_k fr) (fr_top_p fr) 1)
                 (m\<lparr>blocks := bs\<rparr>)) (\<lambda>((idx3, logits_after), m1).
        ebind (select_last 0 idx3) (\<lambda>idx_Bl.
        ebind (if fr_gumbel fr = 0
               then ebind (vq_embedding E idx_Bl) (\<lambda>h. Inr (h, m1))
               else
                 let gum_t = max (0.27 * (1 - ratio * 0.95)) 0.005 in
                 ebind (with_rng_e (fr_rng fr)
                          (\<lambda>g. gumbel_softmax_with_rng E g
                                 (smul (1 + ratio * fr_gumbel fr) logits_after) gum_t) m1)
                   (\<lambda>(soft, m2).
                 ebind (unsqueeze 0 (vq_embedding_weight E)) (\<lambda>w.
                 ebind (matmul soft w) (\<lambda>h. Inr (h, m2))))) (\<lambda>(h, m2).
        ebind (transpose12 h) (\<lambda>hT.
        ebind (reshape [fr_B fr, Cvae m, pn, pn] hT) (\<lambda>h_BChw.
        let s1 = s\<lparr>self := m2, cur_L := cur,
                    ret := ret s @ [if fr_returns_vemb fr then Vemb h_BChw else Idx idx_Bl],
                    observed := observed s @
                      [\<lparr>ob_ratio = ratio, ob_t = t, ob_logits_2B = logits_2B,
                        ob_logits = logits_BlV,
                        ob_caching = map caching (blocks m)\<rparr>]\<rparr>
        in
        if int si \<noteq> num_stages_minus_1 m
        then
          ebind (get_next_autoregressive_input E si (length (patch_nums m)) (f_hat s) h_BChw)
            (\<lambda>(f_hat', nxt).
          ebind (view_rest (fr_B fr) (Cvae m) nxt) (\<lambda>v.
          ebind (transpose12 v) (\<lambda>vT.
          ebind (nn_linear (word_embed_weight m) (word_embed_bias m) vT) (\<lambda>we.
          ebind (if Suc si < length (patch_nums m) then Inr (patch_nums m ! Suc si)
                 else Inl IndexError) (\<lambda>pn_next.
          ebind (slice 1 cur (cur + pn_next ^ 2) (fr_lvl_pos fr)) (\<lambda>lp.
          ebind (tbin fl_add we lp) (\<lambda>tm.
          ebind (repeat2 tm) (\<lambda>tm2.
          Inr (s1\<lparr>f_hat := f_hat', cur_token_map := tm2\<rparr>)))))))))
        else Inr s1))))))))))"

fun stage_loop :: "('g, 'kv) ext \<Rightarrow> frame \<Rightarrow> (nat \<times> nat) list \<Rightarrow> ('g, 'kv) loop_state
    \<Rightarrow> error + ('g, 'kv) loop_state" where
  \<comment> \<open>\<^verbatim>\<open>for si, pn in enumerate(self.patch_nums)\<close>\<close>
  "stage_loop E fr [] s = Inr s"
| "stage_loop E fr ((si, pn) # rest) s = ebind (stage E fr si pn s) (stage_loop E fr rest)"

definition resolve_labels :: "('g, 'kv) ext \<Rightarrow> bool \<Rightarrow> nat \<Rightarrow> label_arg \<Rightarrow> ('g, 'kv) var
    \<Rightarrow> int ten \<times> ('g, 'kv) var" where
  \<comment> \<open>lines 166 to 169; \<^verbatim>\<open>multinomial(...).reshape(B)\<close> is the tensor of the \<open>B\<close> draws\<close>
  "resolve_labels E given B label_B m =
     (case label_B of
        LabelNone \<Rightarrow>
          (case with_rng given (\<lambda>g. multinomial E g (selecting_idx m) B) m of
             (f, m') \<Rightarrow> (\<lparr>shp = [B], elt = (\<lambda>idx. f (hd idx))\<rparr>, m'))
      | LabelInt l \<Rightarrow> (full [B] (if l < 0 then int (num_classes m) else l), m)
      | LabelTensor t \<Rightarrow> (t, m))"

definition cfg_labels :: "('g, 'kv) var \<Rightarrow> int ten \<Rightarrow> error + int ten" where
  \<comment> \<open>line 171: the labels followed by as many copies of the unconditional index\<close>
  "cfg_labels m label_B = cat 0 label_B (full (shp label_B) (int (num_classes m)))"

definition autoregressive_infer_cfg :: "('g, 'kv) ext \<Rightarrow> ('g, 'kv) var \<Rightarrow> nat \<Rightarrow> label_arg
    \<Rightarrow> int option \<Rightarrow> real \<Rightarrow> int \<Rightarrow> real \<Rightarrow> bool \<Rightarrow> real \<Rightarrow> real
    \<Rightarrow> error + out list \<times> stage_obs list \<times> ('g, 'kv) var" where
  \<comment> \<open>lines 145 to 213; the second component of the result is the record of the
      stages, not a value the code returns\<close>
  "autoregressive_infer_cfg E m B label_B g_seed cfg top_k top_p returns_vemb gumbel tau =
     (let given = (g_seed \<noteq> None);
          m1 = (case g_seed of None \<Rightarrow> m | Some seed \<Rightarrow> m\<lparr>rng := manual_seed E seed\<rparr>)
      in case resolve_labels E given B label_B m1 of (label_B, m2) \<Rightarrow>
        ebind (cfg_labels m2 label_B) (\<lambda>labels.
        ebind (embedding (class_emb m2) labels) (\<lambda>cond_BD.
        ebind (embedding (lvl_embed m2) (tmap int (lvl_1L m2))) (\<lambda>le.
        ebind (tbin fl_add le (pos_1LC m2)) (\<lambda>lvl_pos.
        ebind (unsqueeze 1 cond_BD) (\<lambda>sos1.
        ebind (expand [Some (2 * B), Some (first_l m2), None] sos1) (\<lambda>sos2.
        ebind (expand [Some (2 * B), Some (first_l m2), None] (pos_start m2)) (\<lambda>ps.
        ebind (tbin fl_add sos2 ps) (\<lambda>sp.
        ebind (slice 1 0 (first_l m2) lvl_pos) (\<lambda>lp.
        ebind (tbin fl_add sp lp) (\<lambda>tm.
        if patch_nums m2 = [] then Inl IndexError
        else
          let pn_last = last (patch_nums m2);
              m3 = m2\<lparr>blocks := map (kv_caching True) (blocks m2)\<rparr>;
              fr = \<lparr>fr_B = B, fr_cfg = cfg, fr_top_k = top_k, fr_top_p = top_p,
                    fr_returns_vemb = returns_vemb, fr_gumbel = gumbel, fr_tau = tau,
                    fr_rng = given, fr_cond_BD = cond_BD, fr_lvl_pos = lvl_pos\<rparr>
          in
          ebind (stage_loop E fr (enumerate 0 (patch_nums m2))
                   \<lparr>self = m3, cur_L = 0, cur_token_map = tm,
                    f_hat = full [B, Cvae m2, pn_last, pn_last] (Fin 0),
                    ret = [], observed = []\<rparr>) (\<lambda>s.
          Inr (ret s, observed s,
               (self s)\<lparr>blocks := map (kv_caching False) (blocks (self s))\<rparr>)))))))))))))"

text \<open>
  What the record of stage \<open>si\<close> must say: the ratio and \<open>t\<close> of lines 181 and
  192 for a model with \<open>n1 = num_stages_minus_1\<close>, the logits handed to the sampler
  being the merge of line 193 of the logits of the doubled batch, and the given
  caching flags.
\<close>

definition stage_ok :: "real \<Rightarrow> nat \<Rightarrow> int \<Rightarrow> bool list \<Rightarrow> nat \<Rightarrow> stage_obs \<Rightarrow> bool" where
  "stage_ok cfg B n1 flags si ob =
     (ob_ratio ob = real si / real_of_int n1 \<and>
      ob_t ob = cfg * (real si / real_of_int n1) \<and>
      cfg_merge (ob_t ob) B (ob_logits_2B ob) = Inr (ob_logits ob) \<and>
      ob_caching ob = flags)"

section \<open>A small configuration\<close>

text \<open>
  Two stages of side 1 and 2 (5 positions), width 4 with 2 heads, one block, three
  classes. All initial parameter entries are 0. The concrete runs below use it.
\<close>

definition demo_config :: config where
  "demo_config = \<lparr>vae_Cvae = 1, vae_vocab_size = 2, num_classes = 3, cond_drop_rate = 1 / 10,
     depth = 1, embed_dim = 4, num_heads = 2, layer_scale = - 1, patch_nums = [1, 2],
     last_block_fused = False\<rparr>"

definition demo_init :: "unit init_vals" where
  "demo_init = \<lparr>rng0 = (), default_rng0 = (), class_emb0 = (\<lambda>idx. Fin 0),
     pos_start0 = (\<lambda>idx. Fin 0), pos_1LC0 = (\<lambda>idx. Fin 0), lvl_embed0 = (\<lambda>idx. Fin 0),
     word_embed_weight0 = (\<lambda>idx. Fin 0), word_embed_bias0 = (\<lambda>idx. Fin 0)\<rparr>"

text \<open>
  Collaborators for the concrete runs: blocks and normalisation that hand their input
  on, a head that maps to a vocabulary of 2 with all logits 0, a sampler that always
  picks index 0, a codebook of width 1, generators without state.
\<close>

definition demo_ext :: "(unit, unit) ext" where
  "demo_ext = \<lparr>manual_seed = (\<lambda>seed. ()),
     multinomial = (\<lambda>g p n. ((\<lambda>i. 0), g)),
     rand = (\<lambda>g n. ((\<lambda>i. 1 / 2), g)),
     shared_ada_lin = Inr,
     blk_fwd = (\<lambda>i c kv x cond bias. Inr (x, kv)),
     drop_path_last = (\<lambda>h. h),
     head_nm = (\<lambda>h cond. Inr h),
     head = (\<lambda>h. Inr \<lparr>shp = butlast (shp h) @ [2], elt = (\<lambda>idx. Fin 0)\<rparr>),
     sample_with_top_k_top_p =
       (\<lambda>g lg k p n. Inr ((\<lparr>shp = butlast (shp lg) @ [n], elt = (\<lambda>idx. 0)\<rparr>, lg), g)),
     gumbel_softmax_with_rng = (\<lambda>g lg t. Inr (lg, g)),
     vq_embedding = (\<lambda>idx. Inr \<lparr>shp = shp idx @ [1], elt = (\<lambda>i. Fin 0)\<rparr>),
     vq_embedding_weight = full [2, 1] (Fin 0),
     get_next_autoregressive_input =
       (\<lambda>si n f h. Inr (f, full [shp f ! 0, shp f ! 1, si + 2, si + 2] (Fin 0)))\<rparr>"

section \<open>Basic facts\<close>

lemma ebind_Inl [simp]: "ebind (Inl e) f = Inl e"
  by (simp add: ebind_def)

lemma ebind_Inr [simp]: "ebind (Inr x) f = f x"
  by (simp add: ebind_def)

section \<open>The constructor: stage bookkeeping and buffers\<close>

lemma length_begin_ends_loop [simp]: "length (begin_ends_loop cur pns) = length pns"
  by (induction pns arbitrary: cur) auto

lemma begin_ends_loop_nth:
  "i < length pns \<Longrightarrow> begin_ends_loop cur pns ! i =
     (cur + sum_list (map (\<lambda>pn. pn ^ 2) (take i pns)),
      cur + sum_list (map (\<lambda>pn. pn ^ 2) (take (Suc i) pns)))"
proof (induction pns arbitrary: cur i)
  case Nil
  then show ?case by simp
next
  case (Cons pn pns)
  then show ?case by (cases i) (auto simp: add.assoc)
qed

lemma length_lvl_list_gen:
  "length (concat (map (\<lambda>(i, pn). replicate (pn * pn) i) (enumerate k pns))) =
     sum_list (map (\<lambda>pn. pn ^ 2) pns)"
  by (induction pns arbitrary: k) (auto simp: power2_eq_square)

lemma length_lvl_list: "length (lvl_list pns) = sum_list (map (\<lambda>pn. pn ^ 2) pns)"
  by (simp add: lvl_list_def length_lvl_list_gen)

lemma bidx_1n1: "p < n \<Longrightarrow> bidx [Suc 0, n, Suc 0] [0, p, q] = [0, p, 0]"
  by (cases "n = 1") (simp_all add: bidx_def)

lemma bidx_11n: "q < n \<Longrightarrow> bidx [Suc 0, Suc 0, n] [0, p, q] = [0, 0, q]"
  by (cases "n = 1") (simp_all add: bidx_def)

lemma rowmajor_lt: "p < n \<Longrightarrow> q < n \<Longrightarrow> p * n + q < n * (n::nat)"
proof -
  assume a: "p < n" "q < n"
  then have "p * n + q < p * n + n" by simp
  also have "\<dots> = (Suc p) * n" by simp
  also have "\<dots> \<le> n * n" using a by (metis Suc_leI mult.commute mult_le_mono2)
  finally show ?thesis .
qed

lemma mask_buffers_ok:
  fixes pns :: "nat list"
  defines "xs \<equiv> lvl_list pns"
  defines "n \<equiv> length (lvl_list pns)"
  shows "\<exists>lvl bias.
    mask_buffers pns n = Inr (lvl, bias) \<and>
    shp lvl = [1, n] \<and>
    (\<forall>p. elt lvl [0, p] = xs ! p) \<and>
    shp bias = [1, 1, n, n] \<and>
    (\<forall>p q. p < n \<longrightarrow> q < n \<longrightarrow>
        elt bias [0, 0, p, q] = (if xs ! p \<ge> xs ! q then Fin 0 else NegInf))"
proof -
  define d :: "nat ten" where "d = \<lparr>shp = [1, n, 1], elt = (\<lambda>idx. elt (of_list xs) (unflat [n] (flat [1, n, 1] idx)))\<rparr>"
  define dT :: "nat ten" where "dT = \<lparr>shp = [1, 1, n], elt = (\<lambda>idx. elt d (swap12 idx))\<rparr>"
  define lvl :: "nat ten" where "lvl = \<lparr>shp = [1, n], elt = (\<lambda>idx. elt dT (hd idx # 0 # tl idx))\<rparr>"
  define m :: "fl ten" where "m = \<lparr>shp = [1, n, n],
     elt = (\<lambda>idx. (if elt d (bidx [1, n, 1] idx) \<ge> elt dT (bidx [1, 1, n] idx) then Fin 0 else NegInf))\<rparr>"
  define bias :: "fl ten" where "bias = \<lparr>shp = [1, 1, n, n], elt = (\<lambda>idx. elt m (unflat [1, n, n] (flat [1, 1, n, n] idx)))\<rparr>"
  have 1: "reshape [1, n, 1] (of_list xs) = Inr d"
    by (simp add: reshape_def d_def of_list_def n_def xs_def)
  have 2: "transpose12 d = Inr dT"
    by (simp add: transpose12_def d_def dT_def swap12_def)
  have 3: "select1 0 dT = Inr lvl"
    by (simp add: select1_def dT_def lvl_def)
  have 4: "tbin (\<lambda>a b. if a \<ge> b then Fin 0 else NegInf) d dT = Inr m"
    by (simp add: tbin_def d_def dT_def m_def)
  have 5: "reshape [1, 1, n, n] m = Inr bias"
    by (simp add: reshape_def m_def bias_def)
  have r: "mask_buffers pns n = Inr (lvl, bias)"
    unfolding mask_buffers_def xs_def [symmetric] by (simp only: 1 2 3 4 5 ebind_Inr)
  have dp: "elt d [0, p, 0] = xs ! p" for p
    by (simp add: d_def of_list_def)
  have e: "elt lvl [0, p] = xs ! p" for p
    by (simp add: lvl_def dT_def swap12_def dp)
  have b: "elt bias [0, 0, p, q] = (if xs ! p \<ge> xs ! q then Fin 0 else NegInf)"
    if "p < n" "q < n" for p q
  proof -
    have k: "p * n + q < n * n" using that by (rule rowmajor_lt)
    have "elt bias [0, 0, p, q] = elt m [0, p, q]"
      using that k by (simp add: bias_def)
    also have "\<dots> = (if elt d [0, p, 0] \<ge> elt dT [0, 0, q] then Fin 0 else NegInf)"
      using that by (simp add: m_def bidx_1n1 bidx_11n)
    also have "elt dT [0, 0, q] = xs ! q"
      by (simp add: dT_def swap12_def dp)
    finally show ?thesis by (simp add: dp)
  qed
  have "shp lvl = [1, n]" "shp bias = [1, 1, n, n]"
    by (simp_all add: lvl_def bias_def)
  with r e b show ?thesis by blast
qed

lemma VAR_init_Inr_conds:
  assumes "VAR_init c w = Inr m"
  shows "num_heads c \<noteq> 0" "embed_dim c mod num_heads c = 0" "patch_nums c \<noteq> []"
    "embed_dim c \<noteq> 0" "num_classes c \<noteq> 0" "depth c \<noteq> 0"
  using assms
  by (simp_all add: VAR_init_def Let_def split: if_splits list.splits)

lemma VAR_init_Inr_fields:
  assumes "VAR_init c w = Inr m"
  shows "L m = sum_list (map (\<lambda>pn. pn ^ 2) (patch_nums c))"
    and "first_l m = (hd (patch_nums c)) ^ 2"
    and "begin_ends m = begin_ends_loop 0 (patch_nums c)"
    and "patch_nums m = patch_nums c"
    and "num_stages_minus_1 m = int (length (patch_nums c)) - 1"
    and "shp (lvl_1L m) = [1, L m]"
    and "\<And>p. elt (lvl_1L m) [0, p] = lvl_list (patch_nums c) ! p"
    and "shp (attn_bias_for_masking m) = [1, 1, L m, L m]"
    and "\<And>p q. p < L m \<Longrightarrow> q < L m \<Longrightarrow>
          elt (attn_bias_for_masking m) [0, 0, p, q] =
            (if lvl_list (patch_nums c) ! p \<ge> lvl_list (patch_nums c) ! q then Fin 0 else NegInf)"
proof -
  note cs = VAR_init_Inr_conds [OF assms]
  define n where "n = sum_list (map (\<lambda>pn. pn ^ 2) (patch_nums c))"
  have n: "n = length (lvl_list (patch_nums c))"
    by (simp add: n_def length_lvl_list)
  obtain lvl bias where
    mb: "mask_buffers (patch_nums c) n = Inr (lvl, bias)"
    and lv: "shp lvl = [1, n]" "\<And>p. elt lvl [0, p] = lvl_list (patch_nums c) ! p"
    and bs: "shp bias = [1, 1, n, n]"
      "\<And>p q. p < n \<Longrightarrow> q < n \<Longrightarrow> elt bias [0, 0, p, q] =
          (if lvl_list (patch_nums c) ! p \<ge> lvl_list (patch_nums c) ! q then Fin 0 else NegInf)"
    using mask_buffers_ok [of "patch_nums c"] unfolding n by blast
  obtain pn0 rest where pns: "patch_nums c = pn0 # rest"
    using cs(3) by (cases "patch_nums c") auto
  have flds: "L m = n \<and> first_l m = pn0 ^ 2 \<and> begin_ends m = begin_ends_loop 0 (patch_nums c) \<and>
     patch_nums m = patch_nums c \<and> num_stages_minus_1 m = int (length (patch_nums c)) - 1 \<and>
     lvl_1L m = lvl \<and> attn_bias_for_masking m = bias"
    using assms cs mb
    by (auto simp add: VAR_init_def Let_def pns power2_eq_square n_def)
  show "L m = sum_list (map (\<lambda>pn. pn ^ 2) (patch_nums c))"
    using flds by (simp add: n_def)
  show "first_l m = (hd (patch_nums c)) ^ 2" using flds pns by simp
  show "begin_ends m = begin_ends_loop 0 (patch_nums c)" using flds by simp
  show "patch_nums m = patch_nums c" using flds by simp
  show "num_stages_minus_1 m = int (length (patch_nums c)) - 1" using flds by simp
  show "shp (lvl_1L m) = [1, L m]" using flds lv by simp
  show "\<And>p. elt (lvl_1L m) [0, p] = lvl_list (patch_nums c) ! p" using flds lv by simp
  show "shp (attn_bias_for_masking m) = [1, 1, L m, L m]" using flds bs by simp
  show "\<And>p q. p < L m \<Longrightarrow> q < L m \<Longrightarrow>
          elt (attn_bias_for_masking m) [0, 0, p, q] =
            (if lvl_list (patch_nums c) ! p \<ge> lvl_list (patch_nums c) ! q then Fin 0 else NegInf)"
    using flds bs by simp
qed


lemma VAR_init_Inr_iff:
  "(\<exists>m :: ('g, 'kv) var. VAR_init c w = Inr m) \<longleftrightarrow>
     num_heads c \<noteq> 0 \<and> embed_dim c mod num_heads c = 0 \<and> patch_nums c \<noteq> [] \<and>
     embed_dim c \<noteq> 0 \<and> num_classes c \<noteq> 0 \<and> depth c \<noteq> 0"
proof
  assume "\<exists>m :: ('g, 'kv) var. VAR_init c w = Inr m"
  then obtain m :: "('g, 'kv) var" where "VAR_init c w = Inr m" by blast
  from VAR_init_Inr_conds [OF this] show
    "num_heads c \<noteq> 0 \<and> embed_dim c mod num_heads c = 0 \<and> patch_nums c \<noteq> [] \<and>
     embed_dim c \<noteq> 0 \<and> num_classes c \<noteq> 0 \<and> depth c \<noteq> 0"
    by simp
next
  assume cs: "num_heads c \<noteq> 0 \<and> embed_dim c mod num_heads c = 0 \<and> patch_nums c \<noteq> [] \<and>
     embed_dim c \<noteq> 0 \<and> num_classes c \<noteq> 0 \<and> depth c \<noteq> 0"
  obtain lvl bias where
    mb: "mask_buffers (patch_nums c) (length (lvl_list (patch_nums c))) = Inr (lvl, bias)"
    using mask_buffers_ok [of "patch_nums c"] by blast
  obtain pn0 rest where pns: "patch_nums c = pn0 # rest"
    using cs by (cases "patch_nums c") auto
  have "mask_buffers (patch_nums c) (sum_list (map (\<lambda>pn. pn ^ 2) (patch_nums c))) = Inr (lvl, bias)"
    using mb by (simp add: length_lvl_list)
  then show "\<exists>m :: ('g, 'kv) var. VAR_init c w = Inr m"
    using cs by (simp add: VAR_init_def Let_def pns power2_eq_square)
qed

lemma lvl_gen:
  "p < length (concat (map (\<lambda>(i, pn). replicate (pn * pn) i) (enumerate k pns))) \<Longrightarrow>
   \<exists>i<length pns. concat (map (\<lambda>(i, pn). replicate (pn * pn) i) (enumerate k pns)) ! p = k + i \<and>
      sum_list (map (\<lambda>pn. pn ^ 2) (take i pns)) \<le> p \<and> p < sum_list (map (\<lambda>pn. pn ^ 2) (take (Suc i) pns))"
proof (induction pns arbitrary: k p)
  case Nil
  then show ?case by simp
next
  case (Cons pn pns)
  show ?case
  proof (cases "p < pn * pn")
    case True
    then show ?thesis
      by (intro exI [of _ 0]) (simp add: nth_append power2_eq_square)
  next
    case False
    let ?r = "concat (map (\<lambda>(i, pn). replicate (pn * pn) i) (enumerate (Suc k) pns))"
    define p' where "p' = p - pn * pn"
    have p: "p = pn * pn + p'"
      using False by (simp add: p'_def)
    have "p' < length ?r"
      using Cons.prems by (simp add: p)
    from Cons.IH [OF this] obtain i where i: "i < length pns" "?r ! p' = Suc k + i"
      "sum_list (map (\<lambda>pn. pn ^ 2) (take i pns)) \<le> p'"
      "p' < sum_list (map (\<lambda>pn. pn ^ 2) (take (Suc i) pns))"
      by blast
    show ?thesis
      using i
      by (intro exI [of _ "Suc i"]) (simp add: p nth_append power2_eq_square)
  qed
qed

lemma prefix_sums_mono:
  "i \<le> j \<Longrightarrow> sum_list (map (\<lambda>pn. pn ^ 2) (take i pns)) \<le> sum_list (map (\<lambda>pn. pn ^ 2) (take j (pns::nat list)))"
proof -
  assume "i \<le> j"
  then have "take j pns = take i pns @ take (j - i) (drop i pns)"
    by (metis le_add_diff_inverse take_add)
  then show ?thesis by simp
qed

lemma lvl_list_stage:
  assumes "p < length (lvl_list pns)" "i < length pns"
  shows "(lvl_list pns ! p = i) \<longleftrightarrow>
    (sum_list (map (\<lambda>pn. pn ^ 2) (take i pns)) \<le> p \<and> p < sum_list (map (\<lambda>pn. pn ^ 2) (take (Suc i) pns)))"
proof -
  obtain j where j: "j < length pns" "lvl_list pns ! p = j"
    "sum_list (map (\<lambda>pn. pn ^ 2) (take j pns)) \<le> p"
    "p < sum_list (map (\<lambda>pn. pn ^ 2) (take (Suc j) pns))"
    using lvl_gen [of p 0 pns] assms(1) unfolding lvl_list_def by auto
  show ?thesis
  proof
    assume "lvl_list pns ! p = i"
    with j show "sum_list (map (\<lambda>pn. pn ^ 2) (take i pns)) \<le> p \<and> p < sum_list (map (\<lambda>pn. pn ^ 2) (take (Suc i) pns))"
      by simp
  next
    assume r: "sum_list (map (\<lambda>pn. pn ^ 2) (take i pns)) \<le> p \<and> p < sum_list (map (\<lambda>pn. pn ^ 2) (take (Suc i) pns))"
    have "\<not> i < j"
    proof
      assume "i < j"
      then have "Suc i \<le> j" by simp
      from prefix_sums_mono [OF this, of pns] r j(3) show False by simp
    qed
    moreover have "\<not> j < i"
    proof
      assume "j < i"
      then have "Suc j \<le> i" by simp
      from prefix_sums_mono [OF this, of pns] r j(4) show False by simp
    qed
    ultimately show "lvl_list pns ! p = i" using j(2) by simp
  qed
qed

text \<open>
  Claim C4. For a constructed model, \<open>L\<close> is the sum of the squared stage
  resolutions and \<open>first_l\<close> the square of the first; \<open>begin_ends\<close> has one
  range per stage, the first starts at 0, each next range starts where the one before
  ends, the last ends at \<open>L\<close>, and the range of stage \<open>i\<close> has \<open>pn\<^sub>i\<^sup>2\<close> positions;
  the level index \<open>lvl_1L\<close> has shape \<open>(1, L)\<close> and holds \<open>i\<close> at a position exactly
  when the position lies in the range of stage \<open>i\<close>.
  The constructor raises \<open>IndexError\<close> on an empty stage list (line 45), so the
  statement is about the models it returns.
\<close>

theorem C4_stage_partition:
  assumes "VAR_init c w = Inr m"
  shows "L m = sum_list (map (\<lambda>pn. pn ^ 2) (patch_nums c)) \<and>
         first_l m = (patch_nums c ! 0) ^ 2 \<and>
         length (begin_ends m) = length (patch_nums c) \<and>
         fst (begin_ends m ! 0) = 0 \<and>
         (\<forall>i. Suc i < length (patch_nums c) \<longrightarrow>
            fst (begin_ends m ! Suc i) = snd (begin_ends m ! i)) \<and>
         snd (last (begin_ends m)) = L m \<and>
         (\<forall>i < length (patch_nums c).
            snd (begin_ends m ! i) = fst (begin_ends m ! i) + (patch_nums c ! i) ^ 2) \<and>
         shp (lvl_1L m) = [1, L m] \<and>
         (\<forall>p < L m. \<forall>i < length (patch_nums c).
            (elt (lvl_1L m) [0, p] = i) =
            (fst (begin_ends m ! i) \<le> p \<and> p < snd (begin_ends m ! i)))"
proof -
  let ?pns = "patch_nums c"
  note f = VAR_init_Inr_fields [OF assms]
  have ne: "?pns \<noteq> []" by (rule VAR_init_Inr_conds(3) [OF assms])
  have be: "begin_ends m ! i =
      (sum_list (map (\<lambda>pn. pn ^ 2) (take i ?pns)), sum_list (map (\<lambda>pn. pn ^ 2) (take (Suc i) ?pns)))"
    if "i < length ?pns" for i
    using begin_ends_loop_nth [OF that, of 0] by (simp add: f(3))
  have len: "length (begin_ends m) = length ?pns" by (simp add: f(3))
  have 1: "first_l m = (?pns ! 0) ^ 2" using ne by (simp add: f(2) hd_conv_nth)
  have 2: "fst (begin_ends m ! 0) = 0" using ne by (simp add: be)
  have 3: "fst (begin_ends m ! Suc i) = snd (begin_ends m ! i)" if "Suc i < length ?pns" for i
    using that by (simp add: be)
  have 4: "snd (last (begin_ends m)) = L m"
  proof -
    have "begin_ends m \<noteq> []"
      using ne len by (metis length_0_conv)
    then have "last (begin_ends m) = begin_ends m ! (length ?pns - 1)"
      using len by (simp add: last_conv_nth)
    then show ?thesis using ne by (simp add: be f(1))
  qed
  have 5: "snd (begin_ends m ! i) = fst (begin_ends m ! i) + (?pns ! i) ^ 2" if "i < length ?pns" for i
    using that by (simp add: be take_Suc_conv_app_nth)
  have 6: "(elt (lvl_1L m) [0, p] = i) = (fst (begin_ends m ! i) \<le> p \<and> p < snd (begin_ends m ! i))"
    if "p < L m" "i < length ?pns" for p i
    using that lvl_list_stage [of p ?pns i] by (simp add: f(7) be f(1) length_lvl_list)
  show ?thesis
    using f(1) 1 len 2 3 4 5 f(6) 6 by blast
qed

theorem C4_stage_partition_witness:
  "\<exists>m :: (unit, unit) var. VAR_init demo_config demo_init = Inr m \<and>
     L m = 5 \<and> first_l m = 1 \<and> snd (last (begin_ends m)) = 5 \<and> shp (lvl_1L m) = [1, 5]"
proof -
  have "\<exists>m :: (unit, unit) var. VAR_init demo_config demo_init = Inr m"
    by (simp add: VAR_init_Inr_iff demo_config_def)
  then obtain m :: "(unit, unit) var" where m: "VAR_init demo_config demo_init = Inr m" ..
  from C4_stage_partition [OF m] have "L m = 5" "first_l m = 1" "snd (last (begin_ends m)) = L m"
    "shp (lvl_1L m) = [1, L m]"
    by (simp_all add: demo_config_def)
  with m show ?thesis by simp
qed

text \<open>
  Claim C7, as amended. Construction fails at line 33 whenever the hidden width is not
  divisible by the head count: \<open>AssertionError\<close> from the \<^verbatim>\<open>assert\<close>, and
  \<open>ZeroDivisionError\<close> from \<^verbatim>\<open>%\<close> when the head count is 0.
\<close>

theorem C7_construction_rejects_indivisible_width:
  "(num_heads c = 0 \<longrightarrow> (VAR_init c w :: error + ('g, 'kv) var) = Inl ZeroDivisionError) \<and>
   (num_heads c \<noteq> 0 \<and> embed_dim c mod num_heads c \<noteq> 0 \<longrightarrow>
      (VAR_init c w :: error + ('g, 'kv) var) = Inl AssertionError)"
  by (simp add: VAR_init_def)

theorem C7_construction_rejects_indivisible_width_witness:
  "(VAR_init (demo_config\<lparr>num_heads := 0\<rparr>) demo_init :: error + (unit, unit) var) = Inl ZeroDivisionError \<and>
   (VAR_init (demo_config\<lparr>embed_dim := 5\<rparr>) demo_init :: error + (unit, unit) var) = Inl AssertionError"
  using C7_construction_rejects_indivisible_width [of "demo_config\<lparr>num_heads := 0\<rparr>" demo_init]
    C7_construction_rejects_indivisible_width [of "demo_config\<lparr>embed_dim := 5\<rparr>" demo_init]
  by (simp add: demo_config_def)

text \<open>
  The claim as stated also promises a failure for a stage list that is not
  monotonically non-decreasing. The constructor has no such check: the list
  \<open>(2, 1)\<close> is accepted.
\<close>

theorem C7_non_monotone_stages_accepted:
  "\<not> sorted [2, 1 :: nat] \<and>
   (\<exists>m :: (unit, unit) var. VAR_init (demo_config\<lparr>patch_nums := [2, 1]\<rparr>) demo_init = Inr m)"
  by (simp add: VAR_init_Inr_iff demo_config_def)

section \<open>The teacher-forcing forward: label drop and keep-alive\<close>

lemma VAR_init_Inr_params:
  assumes "VAR_init c w = Inr m"
  shows "shp (class_emb m) = [num_classes c + 1, embed_dim c]"
    and "shp (pos_start m) = [1, first_l m, embed_dim c]"
    and "shp (pos_1LC m) = [1, L m, embed_dim c]"
    and "shp (lvl_embed m) = [length (patch_nums c), embed_dim c]"
    and "shp (word_embed_weight m) = [embed_dim c, vae_Cvae c]"
    and "shp (word_embed_bias m) = [embed_dim c]"
    and "elt (class_emb m) = class_emb0 w"
    and "elt (pos_start m) = pos_start0 w"
    and "elt (pos_1LC m) = pos_1LC0 w"
    and "elt (lvl_embed m) = lvl_embed0 w"
    and "elt (word_embed_weight m) = word_embed_weight0 w"
    and "elt (word_embed_bias m) = word_embed_bias0 w"
    and "blocks m = replicate (depth c) \<lparr>caching = False, cached = None\<rparr>"
    and "num_classes m = num_classes c"
    and "cond_drop_rate m = cond_drop_rate c"
    and "Cvae m = vae_Cvae c"
    and "V m = vae_vocab_size c"
    and "C m = embed_dim c"
    and "prog_si m = - 1"
    and "rng m = rng0 w"
    and "default_rng m = default_rng0 w"
    and "gamma2_last m = (if last_block_fused c
                      then if layer_scale c \<ge> 0
                           then GammaVec (full [embed_dim c] (Fin (layer_scale c)))
                           else GammaOne
                      else GammaNone)"
    and "selecting_idx m = full [1, num_classes c] (Fin (1 / real (num_classes c)))"
proof -
  note cs = VAR_init_Inr_conds [OF assms]
  obtain lvl bias where
    mb: "mask_buffers (patch_nums c) (length (lvl_list (patch_nums c))) = Inr (lvl, bias)"
    using mask_buffers_ok [of "patch_nums c"] by blast
  obtain pn0 rest where pns: "patch_nums c = pn0 # rest"
    using cs(3) by (cases "patch_nums c") auto
  have mb': "mask_buffers (pn0 # rest) (pn0 * pn0 + sum_list (map (\<lambda>pn. pn * pn) rest)) = Inr (lvl, bias)"
    using mb by (simp add: length_lvl_list pns power2_eq_square)
  have m: "m = \<lparr>vae_Cvae = vae_Cvae c, vae_vocab_size = vae_vocab_size c,
                   num_classes = num_classes c, cond_drop_rate = cond_drop_rate c,
                   depth = depth c, embed_dim = embed_dim c, num_heads = num_heads c,
                   layer_scale = layer_scale c, patch_nums = patch_nums c,
                   last_block_fused = last_block_fused c,
                   Cvae = vae_Cvae c, V = vae_vocab_size c,
                   C = embed_dim c, D = embed_dim c,
                   prog_si = - 1,
                   L = sum_list (map (\<lambda>pn. pn ^ 2) (patch_nums c)), first_l = pn0 ^ 2,
                   begin_ends = begin_ends_loop 0 (patch_nums c),
                   num_stages_minus_1 = int (length (patch_nums c)) - 1,
                   rng = rng0 w, default_rng = default_rng0 w,
                   word_embed_weight = \<lparr>shp = [embed_dim c, vae_Cvae c], elt = word_embed_weight0 w\<rparr>,
                   word_embed_bias = \<lparr>shp = [embed_dim c], elt = word_embed_bias0 w\<rparr>,
                   selecting_idx = full [1, num_classes c] (Fin (1 / real (num_classes c))),
                   class_emb = \<lparr>shp = [num_classes c + 1, embed_dim c], elt = class_emb0 w\<rparr>,
                   pos_start = \<lparr>shp = [1, pn0 ^ 2, embed_dim c], elt = pos_start0 w\<rparr>,
                   pos_1LC = \<lparr>shp = [1, sum_list (map (\<lambda>pn. pn * pn) (patch_nums c)), embed_dim c],
                              elt = pos_1LC0 w\<rparr>,
                   lvl_embed = \<lparr>shp = [length (patch_nums c), embed_dim c], elt = lvl_embed0 w\<rparr>,
                   blocks = replicate (depth c) \<lparr>caching = False, cached = None\<rparr>,
                   gamma2_last =
                     (if last_block_fused c
                      then if layer_scale c \<ge> 0
                           then GammaVec (full [embed_dim c] (Fin (layer_scale c)))
                           else GammaOne
                      else GammaNone),
                   lvl_1L = lvl, attn_bias_for_masking = bias\<rparr>"
    using assms cs mb'
    by (simp add: VAR_init_def Let_def pns power2_eq_square)
  show "shp (class_emb m) = [num_classes c + 1, embed_dim c]" by (simp add: m power2_eq_square)
  show "shp (pos_start m) = [1, first_l m, embed_dim c]" by (simp add: m power2_eq_square)
  show "shp (pos_1LC m) = [1, L m, embed_dim c]" by (simp add: m power2_eq_square)
  show "shp (lvl_embed m) = [length (patch_nums c), embed_dim c]" by (simp add: m power2_eq_square)
  show "shp (word_embed_weight m) = [embed_dim c, vae_Cvae c]" by (simp add: m power2_eq_square)
  show "shp (word_embed_bias m) = [embed_dim c]" by (simp add: m power2_eq_square)
  show "elt (class_emb m) = class_emb0 w" by (simp add: m power2_eq_square)
  show "elt (pos_start m) = pos_start0 w" by (simp add: m power2_eq_square)
  show "elt (pos_1LC m) = pos_1LC0 w" by (simp add: m power2_eq_square)
  show "elt (lvl_embed m) = lvl_embed0 w" by (simp add: m power2_eq_square)
  show "elt (word_embed_weight m) = word_embed_weight0 w" by (simp add: m power2_eq_square)
  show "elt (word_embed_bias m) = word_embed_bias0 w" by (simp add: m power2_eq_square)
  show "blocks m = replicate (depth c) \<lparr>caching = False, cached = None\<rparr>" by (simp add: m power2_eq_square)
  show "num_classes m = num_classes c" by (simp add: m power2_eq_square)
  show "cond_drop_rate m = cond_drop_rate c" by (simp add: m power2_eq_square)
  show "Cvae m = vae_Cvae c" by (simp add: m power2_eq_square)
  show "V m = vae_vocab_size c" by (simp add: m power2_eq_square)
  show "C m = embed_dim c" by (simp add: m power2_eq_square)
  show "prog_si m = - 1" by (simp add: m power2_eq_square)
  show "rng m = rng0 w" by (simp add: m power2_eq_square)
  show "default_rng m = default_rng0 w" by (simp add: m power2_eq_square)
  show "gamma2_last m = (if last_block_fused c
                      then if layer_scale c \<ge> 0
                           then GammaVec (full [embed_dim c] (Fin (layer_scale c)))
                           else GammaOne
                      else GammaNone)" by (simp add: m power2_eq_square)
  show "selecting_idx m = full [1, num_classes c] (Fin (1 / real (num_classes c)))" by (simp add: m power2_eq_square)
qed

lemma fl_add_zero [simp]: "fl_add x (Fin 0) = x"
  by (cases x) simp_all

lemma keep_alive_term:
  "is_fin w00 \<Longrightarrow> is_fin b0 \<Longrightarrow>
     fl_add x (fl_add (fl_mul w00 (Fin 0)) (fl_mul b0 (Fin 0))) = x"
  by (cases w00; cases b0) simp_all

lemma ebind_eq_Inr: "(ebind a f = Inr r) = (\<exists>x. a = Inr x \<and> f x = Inr r)"
  by (cases a) simp_all

lemma item_eq_Inr: "(item t idx = Inr v) = (in_shape (shp t) idx \<and> v = elt t idx)"
  by (auto simp: item_def)

lemma keep_alive_inert:
  assumes "\<And>idx. in_shape (shp (word_embed_weight m)) idx \<Longrightarrow> is_fin (elt (word_embed_weight m) idx)"
    and "\<And>idx. in_shape (shp (word_embed_bias m)) idx \<Longrightarrow> is_fin (elt (word_embed_bias m) idx)"
    and "keep_alive m x = Inr y"
  shows "y = x"
proof (cases "prog_si m = 0")
  case False
  with assms(3) show ?thesis by (simp add: keep_alive_def)
next
  case True
  from assms(3) True have i: "in_shape (shp (word_embed_weight m)) [0, 0]"
    "in_shape (shp (word_embed_bias m)) [0]"
    and y: "y = x\<lparr>elt := (elt x)([0, 0, 0] := fl_add (elt x [0, 0, 0])
          (fl_add (fl_mul (elt (word_embed_weight m) [0, 0]) (Fin 0))
                  (fl_mul (elt (word_embed_bias m) [0]) (Fin 0))))\<rparr>"
    by (auto simp: keep_alive_def ebind_eq_Inr item_eq_Inr)
  have "fl_add (elt x [0, 0, 0])
          (fl_add (fl_mul (elt (word_embed_weight m) [0, 0]) (Fin 0))
                  (fl_mul (elt (word_embed_bias m) [0]) (Fin 0))) = elt x [0, 0, 0]"
    by (rule keep_alive_term) (simp_all add: assms(1) assms(2) i)
  then show ?thesis by (simp add: y)
qed

lemma keep_alive_returns:
  assumes "\<And>idx. in_shape (shp (word_embed_weight m)) idx \<Longrightarrow> is_fin (elt (word_embed_weight m) idx)"
    and "\<And>idx. in_shape (shp (word_embed_bias m)) idx \<Longrightarrow> is_fin (elt (word_embed_bias m) idx)"
    and "in_shape (shp x) [0, 0, 0]" "in_shape (shp (word_embed_weight m)) [0, 0]"
      "in_shape (shp (word_embed_bias m)) [0]"
  shows "keep_alive m x = Inr x"
proof (cases "prog_si m = 0")
  case False
  then show ?thesis by (simp add: keep_alive_def)
next
  case True
  have "fl_add (elt x [0, 0, 0])
          (fl_add (fl_mul (elt (word_embed_weight m) [0, 0]) (Fin 0))
                  (fl_mul (elt (word_embed_bias m) [0]) (Fin 0))) = elt x [0, 0, 0]"
    by (rule keep_alive_term) (simp_all add: assms)
  then show ?thesis using True assms(3-5) by (simp add: keep_alive_def item_def)
qed

text \<open>
  Claim C8. With \<open>prog_si = 0\<close> and every entry of the word-embedding weight and bias
  finite, the addition of lines 248 to 256 changes nothing: whatever \<open>forward\<close>
  returns is what lines 221 to 246 computed, and where those lines return logits that
  have an entry \<open>[0, 0, 0]\<close> (and the parameters an entry \<open>[0, 0]\<close> and \<open>[0]\<close>),
  \<open>forward\<close> returns the same logits and state.
\<close>

theorem C8_keep_alive_inert:
  assumes "prog_si m = 0"
    and "\<forall>idx. in_shape (shp (word_embed_weight m)) idx \<longrightarrow> is_fin (elt (word_embed_weight m) idx)"
    and "\<forall>idx. in_shape (shp (word_embed_bias m)) idx \<longrightarrow> is_fin (elt (word_embed_bias m) idx)"
  shows "(forward E m label_B x = Inr (logits, m') \<longrightarrow> forward_body E m label_B x = Inr (logits, m')) \<and>
         (forward_body E m label_B x = Inr (logits, m') \<and> in_shape (shp logits) [0, 0, 0] \<and>
            in_shape (shp (word_embed_weight m)) [0, 0] \<and> in_shape (shp (word_embed_bias m)) [0]
          \<longrightarrow> forward E m label_B x = Inr (logits, m'))"
proof (intro conjI impI)
  assume "forward E m label_B x = Inr (logits, m')"
  then obtain y where b: "forward_body E m label_B x = Inr (y, m')" and k: "keep_alive m y = Inr logits"
    by (auto simp: forward_def ebind_eq_Inr)
  from keep_alive_inert [OF _ _ k] assms have "logits = y" by blast
  with b show "forward_body E m label_B x = Inr (logits, m')" by simp
next
  assume a: "forward_body E m label_B x = Inr (logits, m') \<and> in_shape (shp logits) [0, 0, 0] \<and>
            in_shape (shp (word_embed_weight m)) [0, 0] \<and> in_shape (shp (word_embed_bias m)) [0]"
  then have "keep_alive m logits = Inr logits"
    using assms by (intro keep_alive_returns) blast+
  with a show "forward E m label_B x = Inr (logits, m')"
    by (simp add: forward_def)
qed

text \<open>
  The finiteness is needed: an infinite weight entry turns the logit into NaN.
\<close>

lemma keep_alive_not_finite:
  "keep_alive (m\<lparr>prog_si := 0, word_embed_weight := full [1, 1] PosInf, word_embed_bias := full [1] (Fin 0)\<rparr>)
     (full [1, 1, 1] (Fin 0)) = Inr ((full [1, 1, 1] (Fin 0))\<lparr>elt := (\<lambda>idx. Fin 0)([0, 0, 0] := NaN)\<rparr>)"
  by (simp add: keep_alive_def item_def in_shape_def full_def fl_inf_of_sign_def)

text \<open>
  Claim C9. Line 224 on \<open>B\<close> labels: the call of \<^verbatim>\<open>torch.rand(B)\<close> gives one
  draw per sample, and label \<open>i\<close> becomes the unconditional index
  \<open>num_classes\<close> exactly when draw \<open>i\<close> is below \<open>cond_drop_rate\<close>; otherwise it is
  kept. The code does this in every call of \<open>forward\<close>, whatever the training mode.
\<close>

theorem C9_label_drop_per_sample:
  assumes "shp label_B = [B]"
  shows "\<exists>r. drop_labels u B rate nc label_B = Inr r \<and> shp r = [B] \<and>
           (\<forall>i<B. elt r [i] = (if u i < rate then int nc else elt label_B [i]))"
proof -
  have b: "bidx [B] [i] = [i]" if "i < B" for i
    using that by (cases "B = 1") (simp_all add: bidx_def)
  show ?thesis
    using assms by (simp add: drop_labels_def tbin_def tmap_def b)
qed

text \<open>
  Claim C10. A negative integer label is replaced by \<open>num_classes\<close> and broadcast
  to all \<open>B\<close> samples (line 169); the doubled batch of line 171 then holds
  \<open>num_classes\<close> in both halves, the class embedding is looked up without error, every
  row being the row of the unconditional index, and the call is the call with the
  label \<open>num_classes\<close>.
\<close>

theorem C10_negative_label_is_unconditional:
  fixes E :: "('g, 'kv) ext" and m :: "('g, 'kv) var"
  assumes "l < 0"
  shows "resolve_labels E given B (LabelInt l) m = (full [B] (int (num_classes m)), m) \<and>
         (\<exists>labels. cfg_labels m (full [B] (int (num_classes m))) = Inr labels \<and>
            shp labels = [2 * B] \<and> (\<forall>idx. elt labels idx = int (num_classes m)) \<and>
            (shp (class_emb m) = [num_classes m + 1, C m] \<longrightarrow>
               (\<exists>cond_BD. embedding (class_emb m) labels = Inr cond_BD \<and>
                  shp cond_BD = [2 * B, C m] \<and>
                  (\<forall>i c. elt cond_BD [i, c] = elt (class_emb m) [num_classes m, c])))) \<and>
         autoregressive_infer_cfg E m B (LabelInt l) g_seed cfg top_k top_p returns_vemb gumbel tau =
         autoregressive_infer_cfg E m B (LabelInt (int (num_classes m))) g_seed cfg top_k top_p
           returns_vemb gumbel tau"
proof -
  have r: "resolve_labels E given B (LabelInt l) m' = (full [B] (int (num_classes m')), m')" for given and m' :: "('g, 'kv) var"
    using assms by (simp add: resolve_labels_def)
  have c: "cfg_labels m (full [B] (int (num_classes m))) = Inr \<lparr>shp = [2 * B], elt = (\<lambda>idx. int (num_classes m))\<rparr>"
    by (auto simp: cfg_labels_def cat_def full_def)
  have e: "embedding (class_emb m) \<lparr>shp = [2 * B], elt = (\<lambda>idx. int (num_classes m))\<rparr> =
     Inr \<lparr>shp = [2 * B, C m], elt = (\<lambda>idx. elt (class_emb m) [num_classes m, last idx])\<rparr>"
    if "shp (class_emb m) = [num_classes m + 1, C m]"
    using that by (simp add: embedding_def list_all_iff)
  have "autoregressive_infer_cfg E m B (LabelInt l) g_seed cfg top_k top_p returns_vemb gumbel tau =
         autoregressive_infer_cfg E m B (LabelInt (int (num_classes m))) g_seed cfg top_k top_p
           returns_vemb gumbel tau"
    using assms by (cases g_seed) (simp_all add: autoregressive_infer_cfg_def Let_def resolve_labels_def)
  with r [of given m] c e show ?thesis by auto
qed

section \<open>Generation: what a stage and the loop keep\<close>

lemma same_static_refl [simp]: "same_static m m"
  by (simp add: same_static_def)

lemma same_static_trans: "same_static a b \<Longrightarrow> same_static b c \<Longrightarrow> same_static a c"
proof -
  assume 1: "same_static a b" and 2: "same_static b c"
  have "a = b\<lparr>rng := rng a, default_rng := default_rng a, blocks := blocks a\<rparr>"
    using 1 by (simp add: same_static_def)
  also have "b = c\<lparr>rng := rng b, default_rng := default_rng b, blocks := blocks b\<rparr>"
    using 2 by (simp add: same_static_def)
  finally show ?thesis by (simp add: same_static_def)
qed

lemma same_static_sym: "same_static a b \<Longrightarrow> same_static b a"
proof -
  assume "same_static a b"
  then have "a = b\<lparr>rng := rng a, default_rng := default_rng a, blocks := blocks a\<rparr>"
    by (simp add: same_static_def)
  then have "a\<lparr>rng := rng b, default_rng := default_rng b, blocks := blocks b\<rparr> =
     b\<lparr>rng := rng a, default_rng := default_rng a, blocks := blocks a\<rparr>
      \<lparr>rng := rng b, default_rng := default_rng b, blocks := blocks b\<rparr>"
    by simp
  then show ?thesis by (simp add: same_static_def)
qed

lemma same_static_upd [simp]:
  "same_static m (m'\<lparr>rng := g\<rparr>) = same_static m m'"
  "same_static m (m'\<lparr>default_rng := g\<rparr>) = same_static m m'"
  "same_static m (m'\<lparr>blocks := bs\<rparr>) = same_static m m'"
  by (simp_all add: same_static_def)

lemma same_static_commute: "same_static a b = same_static b a"
  by (rule iffI) (erule same_static_sym)+

lemma same_static_upd_left [simp]:
  "same_static (m\<lparr>rng := g\<rparr>) m' = same_static m m'"
  "same_static (m\<lparr>default_rng := g\<rparr>) m' = same_static m m'"
  "same_static (m\<lparr>blocks := bs\<rparr>) m' = same_static m m'"
  by (simp_all add: same_static_commute [of _ m'])

lemma same_static_fields:
  assumes "same_static m m'"
  shows "patch_nums m' = patch_nums m" "num_stages_minus_1 m' = num_stages_minus_1 m"
    "attn_bias_for_masking m' = attn_bias_for_masking m" "lvl_1L m' = lvl_1L m"
    "Cvae m' = Cvae m" "word_embed_weight m' = word_embed_weight m"
    "word_embed_bias m' = word_embed_bias m" "gamma2_last m' = gamma2_last m"
    "class_emb m' = class_emb m" "num_classes m' = num_classes m"
proof -
  have e: "m = m'\<lparr>rng := rng m, default_rng := default_rng m, blocks := blocks m\<rparr>"
    using assms by (simp add: same_static_def)
  show "patch_nums m' = patch_nums m" using arg_cong [OF e, of patch_nums] by simp
  show "num_stages_minus_1 m' = num_stages_minus_1 m" using arg_cong [OF e, of num_stages_minus_1] by simp
  show "attn_bias_for_masking m' = attn_bias_for_masking m" using arg_cong [OF e, of attn_bias_for_masking] by simp
  show "lvl_1L m' = lvl_1L m" using arg_cong [OF e, of lvl_1L] by simp
  show "Cvae m' = Cvae m" using arg_cong [OF e, of Cvae] by simp
  show "word_embed_weight m' = word_embed_weight m" using arg_cong [OF e, of word_embed_weight] by simp
  show "word_embed_bias m' = word_embed_bias m" using arg_cong [OF e, of word_embed_bias] by simp
  show "gamma2_last m' = gamma2_last m" using arg_cong [OF e, of gamma2_last] by simp
  show "class_emb m' = class_emb m" using arg_cong [OF e, of class_emb] by simp
  show "num_classes m' = num_classes m" using arg_cong [OF e, of num_classes] by simp
qed

lemma run_blocks_caching:
  "run_blocks E i bs x c a = Inr (y, bs') \<Longrightarrow> map caching bs' = map caching bs"
proof (induction bs arbitrary: i x y bs')
  case Nil
  then show ?case by simp
next
  case (Cons b bs)
  from Cons.prems obtain y1 kv z bs1 where
    "run_blocks E (Suc i) bs y1 c a = Inr (z, bs1)" "bs' = b\<lparr>cached := kv\<rparr> # bs1"
    by (auto simp: ebind_eq_Inr)
  with Cons.IH show ?case by auto
qed

lemma with_rng_e_Inr:
  assumes "with_rng_e given f m = Inr (r, m')"
  shows "same_static m m'" "blocks m' = blocks m"
    "given \<Longrightarrow> default_rng m' = default_rng m"
  using assms by (auto simp: with_rng_e_def ebind_eq_Inr split: if_splits)

lemma stage_Inr:
  assumes "stage E fr si pn s = Inr s'"
  shows "num_stages_minus_1 (self s) \<noteq> 0"
    and "\<exists>x. ret s' = ret s @ [x]"
    and "\<exists>raw lg. observed s' = observed s @
            [\<lparr>ob_ratio = real si / real_of_int (num_stages_minus_1 (self s)),
              ob_t = fr_cfg fr * (real si / real_of_int (num_stages_minus_1 (self s))),
              ob_logits_2B = raw, ob_logits = lg,
              ob_caching = map caching (blocks (self s))\<rparr>] \<and>
          cfg_merge (fr_cfg fr * (real si / real_of_int (num_stages_minus_1 (self s)))) (fr_B fr) raw = Inr lg"
    and "same_static (self s) (self s')"
    and "map caching (blocks (self s')) = map caching (blocks (self s))"
    and "fr_rng fr \<Longrightarrow> default_rng (self s') = default_rng (self s)"
proof -
  show n0: "num_stages_minus_1 (self s) \<noteq> 0"
    using assms by (auto simp: stage_def)
  let ?m = "self s"
  let ?ratio = "real si / real_of_int (num_stages_minus_1 ?m)"
  let ?t = "fr_cfg fr * ?ratio"
  from assms n0 obtain gss x bs raw lg idx3 la m1 idx_Bl h m2 h_BChw where
    rb: "run_blocks E 0 (blocks ?m) (Plain (cur_token_map s)) gss None = Inr (x, bs)"
    and mg: "cfg_merge ?t (fr_B fr) raw = Inr lg"
    and sm: "with_rng_e (fr_rng fr)
                 (\<lambda>g. sample_with_top_k_top_p E g lg (fr_top_k fr) (fr_top_p fr) 1)
                 (?m\<lparr>blocks := bs\<rparr>) = Inr ((idx3, la), m1)"
    and hh: "(if fr_gumbel fr = 0
               then ebind (vq_embedding E idx_Bl) (\<lambda>h. Inr (h, m1))
               else
                 let gum_t = max (0.27 * (1 - ?ratio * 0.95)) 0.005 in
                 ebind (with_rng_e (fr_rng fr)
                          (\<lambda>g. gumbel_softmax_with_rng E g
                                 (smul (1 + ?ratio * fr_gumbel fr) la) gum_t) m1)
                   (\<lambda>(soft, m2).
                 ebind (unsqueeze 0 (vq_embedding_weight E)) (\<lambda>w.
                 ebind (matmul soft w) (\<lambda>h. Inr (h, m2))))) = Inr (h, m2)"
    and rest: "(let s1 = s\<lparr>self := m2, cur_L := cur_L s + pn * pn,
                    ret := ret s @ [if fr_returns_vemb fr then Vemb h_BChw else Idx idx_Bl],
                    observed := observed s @
                      [\<lparr>ob_ratio = ?ratio, ob_t = ?t, ob_logits_2B = raw,
                        ob_logits = lg,
                        ob_caching = map caching (blocks ?m)\<rparr>]\<rparr>
        in
        if int si \<noteq> num_stages_minus_1 ?m
        then
          ebind (get_next_autoregressive_input E si (length (patch_nums ?m)) (f_hat s) h_BChw)
            (\<lambda>(f_hat', nxt).
          ebind (view_rest (fr_B fr) (Cvae ?m) nxt) (\<lambda>v.
          ebind (transpose12 v) (\<lambda>vT.
          ebind (nn_linear (word_embed_weight ?m) (word_embed_bias ?m) vT) (\<lambda>we.
          ebind (if Suc si < length (patch_nums ?m) then Inr (patch_nums ?m ! Suc si)
                 else Inl IndexError) (\<lambda>pn_next.
          ebind (slice 1 (cur_L s + pn * pn) (cur_L s + pn * pn + pn_next ^ 2) (fr_lvl_pos fr)) (\<lambda>lp.
          ebind (tbin fl_add we lp) (\<lambda>tm.
          ebind (repeat2 tm) (\<lambda>tm2.
          Inr (s1\<lparr>f_hat := f_hat', cur_token_map := tm2\<rparr>)))))))))
        else Inr s1) = Inr s'"
    unfolding stage_def Let_def
    by (simp add: ebind_eq_Inr split: prod.splits) blast
  have m1: "same_static ?m m1" "blocks m1 = bs" "fr_rng fr \<Longrightarrow> default_rng m1 = default_rng ?m"
    using with_rng_e_Inr [OF sm] by simp_all
  have m2: "same_static m1 m2 \<and> blocks m2 = blocks m1 \<and> (fr_rng fr \<longrightarrow> default_rng m2 = default_rng m1)"
  proof (cases "fr_gumbel fr = 0")
    case True
    with hh show ?thesis by (auto simp: ebind_eq_Inr)
  next
    case False
    with hh obtain soft where "with_rng_e (fr_rng fr)
                          (\<lambda>g. gumbel_softmax_with_rng E g
                                 (smul (1 + ?ratio * fr_gumbel fr) la) (max (0.27 * (1 - ?ratio * 0.95)) 0.005)) m1 = Inr (soft, m2)"
      by (auto simp: ebind_eq_Inr Let_def)
    from with_rng_e_Inr [OF this] show ?thesis by simp
  qed
  have s': "self s' = m2 \<and> ret s' = ret s @ [if fr_returns_vemb fr then Vemb h_BChw else Idx idx_Bl] \<and>
     observed s' = observed s @ [\<lparr>ob_ratio = ?ratio, ob_t = ?t, ob_logits_2B = raw,
                        ob_logits = lg, ob_caching = map caching (blocks ?m)\<rparr>]"
    using rest by (auto simp: Let_def ebind_eq_Inr split: if_splits)
  show "\<exists>x. ret s' = ret s @ [x]" using s' by blast
  show "\<exists>raw lg. observed s' = observed s @
            [\<lparr>ob_ratio = ?ratio, ob_t = ?t, ob_logits_2B = raw, ob_logits = lg,
              ob_caching = map caching (blocks (self s))\<rparr>] \<and>
          cfg_merge ?t (fr_B fr) raw = Inr lg"
    using s' mg by blast
  show "same_static (self s) (self s')"
    using s' m1(1) m2 by (auto intro: same_static_trans)
  show "map caching (blocks (self s')) = map caching (blocks (self s))"
    using s' m1(2) m2 run_blocks_caching [OF rb] by simp
  show "fr_rng fr \<Longrightarrow> default_rng (self s') = default_rng (self s)"
    using s' m1(3) m2 by simp
qed

lemma stage_loop_Inr:
  assumes "stage_loop E fr (enumerate k pns) s = Inr s'"
  shows "same_static (self s) (self s') \<and>
    map caching (blocks (self s')) = map caching (blocks (self s)) \<and>
    (fr_rng fr \<longrightarrow> default_rng (self s') = default_rng (self s)) \<and>
    length (ret s') = length (ret s) + length pns \<and>
    (pns \<noteq> [] \<longrightarrow> num_stages_minus_1 (self s) \<noteq> 0) \<and>
    (\<exists>new. observed s' = observed s @ new \<and> length new = length pns \<and>
       (\<forall>i<length pns. stage_ok (fr_cfg fr) (fr_B fr) (num_stages_minus_1 (self s))
            (map caching (blocks (self s))) (k + i) (new ! i)))"
  using assms
proof (induction pns arbitrary: k s)
  case Nil
  then show ?case by simp
next
  case (Cons pn pns)
  from Cons.prems obtain s1 where
    st: "stage E fr k pn s = Inr s1"
    and lp: "stage_loop E fr (enumerate (Suc k) pns) s1 = Inr s'"
    by (auto simp: ebind_eq_Inr)
  note a = stage_Inr [OF st]
  note ih = Cons.IH [OF lp]
  from a(3) obtain raw lg where
    ob: "observed s1 = observed s @
            [\<lparr>ob_ratio = real k / real_of_int (num_stages_minus_1 (self s)),
              ob_t = fr_cfg fr * (real k / real_of_int (num_stages_minus_1 (self s))),
              ob_logits_2B = raw, ob_logits = lg,
              ob_caching = map caching (blocks (self s))\<rparr>]"
    and mg: "cfg_merge (fr_cfg fr * (real k / real_of_int (num_stages_minus_1 (self s)))) (fr_B fr) raw = Inr lg"
    by blast
  define ob0 where "ob0 = \<lparr>ob_ratio = real k / real_of_int (num_stages_minus_1 (self s)),
              ob_t = fr_cfg fr * (real k / real_of_int (num_stages_minus_1 (self s))),
              ob_logits_2B = raw, ob_logits = lg,
              ob_caching = map caching (blocks (self s))\<rparr>"
  have ok0: "stage_ok (fr_cfg fr) (fr_B fr) (num_stages_minus_1 (self s))
            (map caching (blocks (self s))) k ob0"
    using mg by (simp add: stage_ok_def ob0_def)
  have n1: "num_stages_minus_1 (self s1) = num_stages_minus_1 (self s)"
    using same_static_fields(2) [OF a(4)] .
  from ih obtain new where
    new: "observed s' = observed s1 @ new" "length new = length pns"
      "\<forall>i<length pns. stage_ok (fr_cfg fr) (fr_B fr) (num_stages_minus_1 (self s1))
            (map caching (blocks (self s1))) (Suc k + i) (new ! i)"
    by blast
  have all: "\<forall>i<length (pn # pns). stage_ok (fr_cfg fr) (fr_B fr) (num_stages_minus_1 (self s))
            (map caching (blocks (self s))) (k + i) ((ob0 # new) ! i)"
  proof (intro allI impI)
    fix i assume "i < length (pn # pns)"
    then show "stage_ok (fr_cfg fr) (fr_B fr) (num_stages_minus_1 (self s))
            (map caching (blocks (self s))) (k + i) ((ob0 # new) ! i)"
      using ok0 new(3) n1 a(5) by (cases i) auto
  qed
  have obs: "observed s' = observed s @ (ob0 # new)"
    using ob new(1) by (simp add: ob0_def)
  have "same_static (self s) (self s')"
    using a(4) ih by (blast intro: same_static_trans)
  moreover have "map caching (blocks (self s')) = map caching (blocks (self s))"
    using a(5) ih by simp
  moreover have "fr_rng fr \<longrightarrow> default_rng (self s') = default_rng (self s)"
    using a(6) ih by simp
  moreover have "length (ret s') = length (ret s) + length (pn # pns)"
    using a(2) ih by auto
  moreover have "num_stages_minus_1 (self s) \<noteq> 0"
    by (rule a(1))
  moreover have "\<exists>new. observed s' = observed s @ new \<and> length new = length (pn # pns) \<and>
       (\<forall>i<length (pn # pns). stage_ok (fr_cfg fr) (fr_B fr) (num_stages_minus_1 (self s))
            (map caching (blocks (self s))) (k + i) (new ! i))"
    using obs all new(2) by (intro exI [of _ "ob0 # new"]) simp
  ultimately show ?case by blast
qed

lemma with_rng_Inr:
  assumes "with_rng given f m = (r, m')"
  shows "same_static m m'" "blocks m' = blocks m"
    "given \<Longrightarrow> default_rng m' = default_rng m"
  using assms by (auto simp: with_rng_def split: if_splits prod.splits)

lemma resolve_labels_frame:
  assumes "resolve_labels E given B lbl m = (t, m')"
  shows "same_static m m'" "blocks m' = blocks m"
    "given \<Longrightarrow> default_rng m' = default_rng m"
proof -
  show "same_static m m'" "blocks m' = blocks m" "given \<Longrightarrow> default_rng m' = default_rng m"
    using assms with_rng_Inr [of given "\<lambda>g. multinomial E g (selecting_idx m) B" m]
    by (auto simp: resolve_labels_def split: label_arg.splits prod.splits)
qed

lemma caching_enabled [simp]:
  "map caching (map (kv_caching True) bs) = replicate (length bs) True"
  by (induction bs) (simp_all add: kv_caching_def)

lemma caching_enabled_comp [simp]:
  "map (caching \<circ> kv_caching True) bs = replicate (length bs) True"
  by (induction bs) (simp_all add: kv_caching_def)

lemma idle_disabled: "list_all (\<lambda>b. \<not> caching b \<and> cached b = None) (map (kv_caching False) bs)"
  by (induction bs) (simp_all add: kv_caching_def)

lemma infer_Inr:
  fixes E :: "('g, 'kv) ext" and m :: "('g, 'kv) var"
  assumes "autoregressive_infer_cfg E m B label_B g_seed cfg top_k top_p returns_vemb gumbel tau
             = Inr (r, obs, m')"
  shows "same_static m m'"
    and "idle m'"
    and "length (blocks m') = length (blocks m)"
    and "length r = length (patch_nums m)"
    and "length obs = length (patch_nums m)"
    and "\<forall>i<length (patch_nums m). stage_ok cfg B (num_stages_minus_1 m)
            (replicate (length (blocks m)) True) i (obs ! i)"
    and "patch_nums m \<noteq> []"
    and "num_stages_minus_1 m \<noteq> 0"
    and "g_seed \<noteq> None \<Longrightarrow> default_rng m' = default_rng m"
proof -
  define given where "given = (g_seed \<noteq> None)"
  define m1 where "m1 = (case g_seed of None \<Rightarrow> m | Some seed \<Rightarrow> m\<lparr>rng := manual_seed E seed\<rparr>)"
  obtain lb m2 where rl: "resolve_labels E given B label_B m1 = (lb, m2)"
    by (cases "resolve_labels E given B label_B m1") auto
  have m1: "same_static m m1" "blocks m1 = blocks m" "default_rng m1 = default_rng m"
    by (simp_all add: m1_def split: option.splits)
  note m2 = resolve_labels_frame [OF rl]
  from assms obtain cond_BD lvl_pos tm s where
    ne: "patch_nums m2 \<noteq> []"
    and lp: "stage_loop E \<lparr>fr_B = B, fr_cfg = cfg, fr_top_k = top_k, fr_top_p = top_p,
                    fr_returns_vemb = returns_vemb, fr_gumbel = gumbel, fr_tau = tau,
                    fr_rng = given, fr_cond_BD = cond_BD, fr_lvl_pos = lvl_pos\<rparr>
                (enumerate 0 (patch_nums m2))
                   \<lparr>self = m2\<lparr>blocks := map (kv_caching True) (blocks m2)\<rparr>, cur_L = 0,
                    cur_token_map = tm,
                    f_hat = full [B, Cvae m2, last (patch_nums m2), last (patch_nums m2)] (Fin 0),
                    ret = [], observed = []\<rparr> = Inr s"
    and res: "r = ret s" "obs = observed s"
      "m' = (self s)\<lparr>blocks := map (kv_caching False) (blocks (self s))\<rparr>"
    unfolding autoregressive_infer_cfg_def Let_def given_def [symmetric] m1_def [symmetric]
    by (simp add: rl ebind_eq_Inr split: if_splits) blast
  note l = stage_loop_Inr [OF lp]
  have st: "same_static m m2"
    using m1(1) m2(1) by (rule same_static_trans)
  have pn: "patch_nums m2 = patch_nums m" and n1: "num_stages_minus_1 m2 = num_stages_minus_1 m"
    using same_static_fields [OF st] by simp_all
  have bl: "blocks m2 = blocks m"
    using m1(2) m2(2) by simp
  show "same_static m m'"
    using l st res(3) by (auto intro: same_static_trans)
  show "idle m'"
    by (simp add: idle_def res(3) idle_disabled)
  have "length (map caching (blocks (self s))) = length (map caching (map (kv_caching True) (blocks m2)))"
    using l by simp
  then show "length (blocks m') = length (blocks m)"
    by (simp add: res(3) bl)
  show "length r = length (patch_nums m)"
    using l by (simp add: res(1) pn)
  from l obtain new where new: "observed s = [] @ new" "length new = length (patch_nums m2)"
    "\<forall>i<length (patch_nums m2). stage_ok cfg B (num_stages_minus_1 m2)
        (map caching (map (kv_caching True) (blocks m2))) (0 + i) (new ! i)"
    by auto
  show "length obs = length (patch_nums m)"
    using new by (simp add: res(2) pn)
  show "\<forall>i<length (patch_nums m). stage_ok cfg B (num_stages_minus_1 m)
            (replicate (length (blocks m)) True) i (obs ! i)"
    using new by (simp add: res(2) pn n1 bl)
  show "patch_nums m \<noteq> []"
    using ne pn by simp
  show "num_stages_minus_1 m \<noteq> 0"
    using l ne n1 by simp
  show "g_seed \<noteq> None \<Longrightarrow> default_rng m' = default_rng m"
    using l m1(3) m2(3) by (simp add: res(3) given_def)
qed

lemma bidx_in3: "b < n0 \<Longrightarrow> j < n1 \<Longrightarrow> k < n2 \<Longrightarrow> bidx [n0, n1, n2] [b, j, k] = [b, j, k]"
  by (auto simp: bidx_def)

lemma cfg_merge_entries:
  assumes "shp raw = [2 * B, l, v]" "cfg_merge t B raw = Inr lg"
  shows "shp lg = [B, l, v]"
    and "b < B \<Longrightarrow> j < l \<Longrightarrow> k < v \<Longrightarrow>
      elt lg [b, j, k] = fl_sub (fl_mul (Fin (1 + t)) (elt raw [b, j, k]))
                                (fl_mul (Fin t) (elt raw [B + b, j, k]))"
proof -
  have lg: "lg = \<lparr>shp = [B, l, v],
      elt = (\<lambda>idx. fl_sub (fl_mul (Fin (1 + t)) (elt raw ((bidx [B, l, v] idx)[0 := bidx [B, l, v] idx ! 0 + 0])))
                           (fl_mul (Fin t) (elt raw ((bidx [B, l, v] idx)[0 := bidx [B, l, v] idx ! 0 + B]))))\<rparr>"
    using assms
    by (simp add: cfg_merge_def slice_def tbin_def smul_def tmap_def Let_def min_def)
  show "shp lg = [B, l, v]" by (simp add: lg)
  show "b < B \<Longrightarrow> j < l \<Longrightarrow> k < v \<Longrightarrow>
      elt lg [b, j, k] = fl_sub (fl_mul (Fin (1 + t)) (elt raw [b, j, k]))
                                (fl_mul (Fin t) (elt raw [B + b, j, k]))"
    by (simp add: lg bidx_in3 add.commute)
qed

text \<open>
  Claim C1. For a call that returns, on a model whose \<open>num_stages_minus_1\<close> is the
  number of stages minus one (line 52) and that has at least two stages: every stage
  \<open>si\<close> is recorded, its guidance ratio is \<open>t = cfg * (si / (num_stages - 1))\<close>, the
  logits handed to the sampler are the merge of line 193 of the logits of the doubled
  batch with this \<open>t\<close>; where those logits have \<open>2B\<close> rows, the merged logits
  have \<open>B\<close> rows and entry \<open>[b, j, k]\<close> is
  \<open>(1 + t) * logits[b, j, k] - t * logits[B + b, j, k]\<close>; \<open>t\<close> is 0 at the first stage
  and \<open>cfg\<close> at the last. Finite values are reals, so the products and the
  quotient are exact.
\<close>

theorem C1_guidance_ratio_per_stage:
  fixes E :: "('g, 'kv) ext" and m :: "('g, 'kv) var"
  assumes "autoregressive_infer_cfg E m B label_B g_seed cfg top_k top_p returns_vemb gumbel tau
             = Inr (r, obs, m')"
    and "num_stages_minus_1 m = int (length (patch_nums m)) - 1"
    and "2 \<le> length (patch_nums m)"
  shows "length obs = length (patch_nums m) \<and>
    (\<forall>si < length (patch_nums m).
       ob_t (obs ! si) = cfg * (real si / real (length (patch_nums m) - 1)) \<and>
       cfg_merge (ob_t (obs ! si)) B (ob_logits_2B (obs ! si)) = Inr (ob_logits (obs ! si)) \<and>
       (\<forall>l v. shp (ob_logits_2B (obs ! si)) = [2 * B, l, v] \<longrightarrow>
          shp (ob_logits (obs ! si)) = [B, l, v] \<and>
          (\<forall>b<B. \<forall>j<l. \<forall>k<v.
             elt (ob_logits (obs ! si)) [b, j, k] =
               fl_sub (fl_mul (Fin (1 + ob_t (obs ! si))) (elt (ob_logits_2B (obs ! si)) [b, j, k]))
                      (fl_mul (Fin (ob_t (obs ! si))) (elt (ob_logits_2B (obs ! si)) [B + b, j, k]))))) \<and>
    ob_t (obs ! 0) = 0 \<and>
    ob_t (obs ! (length (patch_nums m) - 1)) = cfg"
proof -
  let ?n = "length (patch_nums m)"
  note i = infer_Inr [OF assms(1)]
  have n1: "real_of_int (num_stages_minus_1 m) = real (?n - 1)"
    using assms(2,3) by (simp add: of_nat_diff)
  have ok: "ob_t (obs ! si) = cfg * (real si / real (?n - 1)) \<and>
       cfg_merge (ob_t (obs ! si)) B (ob_logits_2B (obs ! si)) = Inr (ob_logits (obs ! si))"
    if "si < ?n" for si
  proof -
    have "stage_ok cfg B (num_stages_minus_1 m) (replicate (length (blocks m)) True) si (obs ! si)"
      using i(6) that by blast
    then have "ob_t (obs ! si) = cfg * (real si / real_of_int (num_stages_minus_1 m))"
      and "cfg_merge (ob_t (obs ! si)) B (ob_logits_2B (obs ! si)) = Inr (ob_logits (obs ! si))"
      unfolding stage_ok_def by blast+
    then show ?thesis by (simp only: n1)
  qed
  have ent: "shp (ob_logits (obs ! si)) = [B, l, v] \<and>
          (\<forall>b<B. \<forall>j<l. \<forall>k<v.
             elt (ob_logits (obs ! si)) [b, j, k] =
               fl_sub (fl_mul (Fin (1 + ob_t (obs ! si))) (elt (ob_logits_2B (obs ! si)) [b, j, k]))
                      (fl_mul (Fin (ob_t (obs ! si))) (elt (ob_logits_2B (obs ! si)) [B + b, j, k])))"
    if "si < ?n" "shp (ob_logits_2B (obs ! si)) = [2 * B, l, v]" for si l v
    using cfg_merge_entries [OF that(2)] ok [OF that(1)] by blast
  have p: "0 < ?n" "?n - 1 < ?n" "real (?n - 1) \<noteq> 0"
    using assms(3) by auto
  have t0: "ob_t (obs ! 0) = 0"
    using ok [OF p(1)] by simp
  have tl: "ob_t (obs ! (?n - 1)) = cfg"
    using ok [OF p(2)] p(3) by simp
  show ?thesis
    using i(5) ok ent t0 tl by blast
qed

text \<open>
  Claim C6. On normal return of a generation call every block has caching off and
  no cached keys or values, the number of blocks is unchanged, the returned list has
  one entry per stage, and at every stage the blocks ran with caching on: it was
  enabled on every block before the loop (line 179) and disabled on every block after
  it (line 212). What \<^verbatim>\<open>kv_caching\<close> does to a block is modelled from the spec.
\<close>

theorem C6_cache_lifecycle:
  fixes E :: "('g, 'kv) ext" and m :: "('g, 'kv) var"
  assumes "autoregressive_infer_cfg E m B label_B g_seed cfg top_k top_p returns_vemb gumbel tau
             = Inr (r, obs, m')"
  shows "idle m' \<and> length (blocks m') = length (blocks m) \<and>
         length r = length (patch_nums m) \<and> length obs = length (patch_nums m) \<and>
         (\<forall>si < length (patch_nums m).
            ob_caching (obs ! si) = replicate (length (blocks m)) True)"
proof -
  note i = infer_Inr [OF assms]
  have "ob_caching (obs ! si) = replicate (length (blocks m)) True"
    if "si < length (patch_nums m)" for si
  proof -
    have "stage_ok cfg B (num_stages_minus_1 m) (replicate (length (blocks m)) True) si (obs ! si)"
      using i(6) that by blast
    then show ?thesis unfolding stage_ok_def by blast
  qed
  with i(2,3,4,5) show ?thesis by blast
qed

end
